theory Spec2Isabelle
  imports Complex_Main "HOL-Library.Word" "HOL-Library.AList"
begin

section \<open>Strings and numbers of the host language\<close>

text \<open>
  JavaScript's \<^verbatim>\<open>s.startsWith(p)\<close>, \<^verbatim>\<open>s.endsWith(p)\<close>, \<^verbatim>\<open>s.slice(2, -2)\<close> and
  \<^verbatim>\<open>s.includes(p)\<close> on strings. A negative end index of \<^verbatim>\<open>slice\<close> counts from the end,
  and an end that does not lie after the start gives the empty string, which is what the
  truncating subtraction of \<open>nat\<close> computes here.
\<close>

definition startsWith :: "string \<Rightarrow> string \<Rightarrow> bool" where
  "startsWith s p = (take (length p) s = p)"

definition endsWith :: "string \<Rightarrow> string \<Rightarrow> bool" where
  "endsWith s p = (length p \<le> length s \<and> drop (length s - length p) s = p)"

definition slice_2_m2 :: "string \<Rightarrow> string" where
  "slice_2_m2 s = take (length s - 2 - 2) (drop 2 s)"

fun str_includes :: "string \<Rightarrow> string \<Rightarrow> bool" where
  "str_includes [] p = (p = [])"
| "str_includes (c # cs) p = (startsWith (c # cs) p \<or> str_includes cs p)"

text \<open>Decimal rendering of a number, as a template literal \<^verbatim>\<open>`${n}`\<close> does it.\<close>

definition digit_char :: "nat \<Rightarrow> char" where
  "digit_char d = char_of (48 + d)"

function show_nat :: "nat \<Rightarrow> string" where
  "show_nat n = (if n < 10 then [digit_char n] else show_nat (n div 10) @ [digit_char (n mod 10)])"
  by pat_completeness auto
termination
  by (relation "measure id") auto

declare show_nat.simps [simp del]

definition show_int :: "int \<Rightarrow> string" where
  "show_int i = (if i < 0 then CHR ''-'' # show_nat (nat (- i)) else show_nat (nat i))"

text \<open>
  \<^verbatim>\<open>xs[i]\<close> on an array: \<^verbatim>\<open>undefined\<close> (here \<open>None\<close>) beyond the end. A value is
  falsy when it is \<^verbatim>\<open>undefined\<close> or the empty string.
\<close>

fun nth_opt :: "'a list \<Rightarrow> nat \<Rightarrow> 'a option" where
  "nth_opt [] i = None"
| "nth_opt (x # xs) 0 = Some x"
| "nth_opt (x # xs) (Suc i) = nth_opt xs i"

fun falsy :: "string option \<Rightarrow> bool" where
  "falsy None = True"
| "falsy (Some s) = (s = [])"

text \<open>\<^verbatim>\<open>String(v)\<close> of a possibly undefined string, as it appears inside a message.\<close>

fun js_string :: "string option \<Rightarrow> string" where
  "js_string None = ''undefined''"
| "js_string (Some s) = s"

section \<open>Placeholder resolution (StepExecutor.resolveParam)\<close>

text \<open>
  A parameter mapping is a JavaScript object used as a dictionary; \<open>params key\<close> is the
  value of \<^verbatim>\<open>params[key]\<close>, with \<open>None\<close> for \<^verbatim>\<open>undefined\<close>. The process environment is
  a mapping of the same kind. A thrown \<^verbatim>\<open>Error\<close> is the left summand, carrying its message.
\<close>

type_synonym params = "string \<rightharpoonup> string"

definition resolveParam :: "params \<Rightarrow> string \<Rightarrow> params \<Rightarrow> string + string" where
  "resolveParam penv v ps =
     (if \<not> startsWith v ''{{'' \<or> \<not> endsWith v ''}}'' then Inr v
      else let key = slice_2_m2 v in
        if startsWith key ''env.'' then
          (let envVar = drop 4 key in
           case penv envVar of
             None \<Rightarrow> Inl (''Environment variable '' @ envVar @
                        '' is not defined. Please set it in your .env file.'')
           | Some envValue \<Rightarrow> Inr envValue)
        else (case ps key of None \<Rightarrow> Inr [] | Some x \<Rightarrow> Inr x))"

text \<open>
  \<^verbatim>\<open>step.params.map(p => this.resolveParam(p, params))\<close>: the values are resolved from
  left to right and the first error ends the mapping.
\<close>

fun resolveParams :: "params \<Rightarrow> string list \<Rightarrow> params \<Rightarrow> string + string list" where
  "resolveParams penv [] ps = Inr []"
| "resolveParams penv (v # vs) ps =
     (case resolveParam penv v ps of
        Inl e \<Rightarrow> Inl e
      | Inr r \<Rightarrow> (case resolveParams penv vs ps of Inl e \<Rightarrow> Inl e | Inr rs \<Rightarrow> Inr (r # rs)))"

section \<open>The step interpreter (StepExecutor.execute)\<close>

subsection \<open>Images and files\<close>

text \<open>
  A decoded PNG (\<^verbatim>\<open>pngjs\<close>): its dimensions and its RGBA bytes. A file holds either the
  encoding of a raster or bytes that \<^verbatim>\<open>PNG.sync.read\<close> rejects by throwing.
\<close>

type_synonym byte = "8 word"

record raster =
  width :: nat
  height :: nat
  data :: "byte list"

datatype buffer = Png raster | Garbage "byte list"

fun png_read :: "buffer \<Rightarrow> string + raster" where
  "png_read (Png r) = Inr r"
| "png_read (Garbage bs) = Inl ''Invalid file signature''"

text \<open>
  The files: \<open>Baseline f\<close> is \<^verbatim>\<open>screenshots/baseline/f\<close>, \<open>Actual f\<close> is
  \<^verbatim>\<open>screenshots/actual/f\<close> and \<open>Shot f\<close> is \<^verbatim>\<open>screenshots/f\<close>, for a file name \<open>f\<close>
  without directory separators. \<open>Other segs\<close> is a file anywhere else, given by the
  segments of its absolute normalised path. The store lists each file once, in directory
  order.
\<close>

datatype path = Baseline string | Actual string | Shot string | Other "string list"

type_synonym files = "(path \<times> buffer) list"

definition pathExists :: "files \<Rightarrow> path \<Rightarrow> bool" where
  "pathExists fs p = (map_of fs p \<noteq> None)"

definition readFile :: "files \<Rightarrow> path \<Rightarrow> string + buffer" where
  "readFile fs p = (case map_of fs p of None \<Rightarrow> Inl ''ENOENT: no such file or directory'' | Some b \<Rightarrow> Inr b)"

text \<open>The store with the file \<open>p\<close> holding \<open>b\<close>, and without the file \<open>p\<close>.\<close>

definition put :: "files \<Rightarrow> path \<Rightarrow> buffer \<Rightarrow> files" where
  "put fs p b = AList.update p b fs"

definition remove :: "files \<Rightarrow> path \<Rightarrow> files" where
  "remove fs p = AList.delete p fs"

text \<open>
  \<^verbatim>\<open>path.join\<close> with POSIX separators. A name is cut at every \<^verbatim>\<open>/\<close> (\<open>split_on\<close> is
  \<^verbatim>\<open>String.split\<close> for a separator of one character), and \<open>walk\<close> normalises as
  \<^verbatim>\<open>path.join\<close> does, from the segments of an absolute directory on: an empty segment and
  \<^verbatim>\<open>.\<close> are dropped, and \<^verbatim>\<open>..\<close> takes the segment before it away (the root is its own
  parent).
\<close>

fun split_on :: "char \<Rightarrow> string \<Rightarrow> string list" where
  "split_on c [] = [[]]"
| "split_on c (x # xs) =
     (if x = c then [] # split_on c xs
      else case split_on c xs of [] \<Rightarrow> [[x]] | y # ys \<Rightarrow> (x # y) # ys)"

fun walk :: "string list \<Rightarrow> string list \<Rightarrow> string list" where
  "walk acc [] = acc"
| "walk acc (s # ss) =
     (if s = [] \<or> s = ''.'' then walk acc ss
      else if s = ''..'' then walk (butlast acc) ss
      else walk (acc @ [s]) ss)"

text \<open>A name without directory separator.\<close>

definition plain :: "string \<Rightarrow> bool" where
  "plain s = (CHR ''/'' \<notin> set s)"

subsection \<open>The browser and the libraries, as parameters\<close>

text \<open>
  The calls a built-in action makes on the Playwright page, with the arguments the
  interpreter passes (\<open>None\<close> is \<^verbatim>\<open>undefined\<close>, for \<^verbatim>\<open>parseInt\<close> it is \<^verbatim>\<open>NaN\<close>).
\<close>

datatype page_action =
    Goto "string option"
  | Fill "string option" "string option"
  | Click "string option"
  | ExpectVisible "string option"
  | ExpectContainsText "string option" "string option"
  | ExpectURL "string option"
  | WaitForTimeout "int option"

record response =
  resp_status :: int
  resp_text :: string

text \<open>What the interpreter asked of the browser, in order.\<close>

datatype browser_call =
    Did page_action
  | Fetched "string option" "string option" "string option"
  | Screenshot
  | Plugin string "string list"

text \<open>
  Everything outside the repository is a parameter of the model: the page (an action
  either returns or throws a message, and changes the world \<open>'w\<close> of browser and server),
  \<^verbatim>\<open>page.request.fetch(url, {method, data})\<close>, \<^verbatim>\<open>page.screenshot()\<close> (taken not to throw),
  the clock \<^verbatim>\<open>Date.now()\<close>, the library function \<^verbatim>\<open>pixelmatch(img1, img2, diff, width,
  height, {threshold})\<close> (it throws, or returns the number of differing pixels and the
  bytes it wrote to \<^verbatim>\<open>diff\<close>), \<^verbatim>\<open>process.env\<close>, the loaded plugins, the template store, the
  data loader, and opening and closing a browser context (taken not to throw).
  \<open>cwd\<close> is \<^verbatim>\<open>process.cwd()\<close>, an absolute normalised path, by its segments;
  \<open>dir_exists\<close> tells which directories there are besides that one, the ones above it,
  \<^verbatim>\<open>screenshots/\<close>, \<^verbatim>\<open>screenshots/baseline\<close> and \<^verbatim>\<open>screenshots/actual\<close>.
\<close>

record ctx_options =
  emulate :: "string option"
  viewport :: "(nat \<times> nat) option"

record TemplateStep =
  action :: string
  params :: "string list"

record Template =
  t_id :: string
  steps :: "TemplateStep list"

record 'w env =
  page_do :: "page_action \<Rightarrow> 'w \<Rightarrow> string option \<times> 'w"
  page_fetch :: "string option \<Rightarrow> string option \<Rightarrow> string option \<Rightarrow> 'w \<Rightarrow> (string + response) \<times> 'w"
  page_screenshot :: "'w \<Rightarrow> buffer"
  date_now :: "'w \<Rightarrow> nat"
  pixelmatch :: "byte list \<Rightarrow> byte list \<Rightarrow> nat \<Rightarrow> nat \<Rightarrow> rat \<Rightarrow> string + (nat \<times> byte list)"
  process_env :: params
  plugins :: "string \<rightharpoonup> (string list \<Rightarrow> 'w \<Rightarrow> string option \<times> 'w)"
  loadTemplate :: "string \<Rightarrow> Template option"
  loadData :: "string \<Rightarrow> string + params list"
  devices :: "string \<Rightarrow> bool"
  newContext :: "ctx_options \<Rightarrow> 'w \<Rightarrow> 'w"
  closeContext :: "'w \<Rightarrow> 'w"
  dir_exists :: "string list \<Rightarrow> bool"
  cwd :: "string list"

text \<open>
  \<^verbatim>\<open>path.join(process.cwd(), 'screenshots', ...dir, name)\<close>, and the file it denotes: a
  file of \<^verbatim>\<open>screenshots/baseline\<close> or \<^verbatim>\<open>screenshots/actual\<close> whatever the name that leads
  there, \<open>Shot f\<close> for a name \<open>f\<close> written without separator, and \<open>Other\<close> with the
  segments of the path in every other case (also for a file that a name with \<^verbatim>\<open>..\<close>
  reaches in \<^verbatim>\<open>screenshots/\<close> itself, which the store keeps apart from \<open>Shot\<close>).
\<close>

definition screenshots_dir :: "'w env \<Rightarrow> string list" where
  "screenshots_dir env = cwd env @ [''screenshots'']"

definition locate :: "'w env \<Rightarrow> string list \<Rightarrow> string \<Rightarrow> path" where
  "locate env dir f0 =
     (let root = screenshots_dir env;
          segs = walk (root @ dir) (split_on CHR ''/'' f0)
      in if take (length root) segs = root then
           (case drop (length root) segs of
              [d, f] \<Rightarrow>
                if d = ''baseline'' then Baseline f
                else if d = ''actual'' then Actual f
                else Other segs
            | rest \<Rightarrow> if rest = [f0] then Shot f0 else Other segs)
         else Other segs)"

text \<open>
  The directory of a file. \<^verbatim>\<open>fs.writeFile\<close> and \<^verbatim>\<open>fs.writeFileSync\<close> make no directory:
  they throw when the directory of the file is not there. The working directory and the
  directories above it are there, and so are the three directories of the screenshots: the
  comparison step makes them with \<^verbatim>\<open>fs.ensureDir\<close> (taken to succeed), and
  \<^verbatim>\<open>page.screenshot\<close> makes the directory of the file it writes. No directory has the name
  of a file.
\<close>

definition dir_of :: "'w env \<Rightarrow> path \<Rightarrow> string list" where
  "dir_of env p =
     (case p of
        Baseline f \<Rightarrow> screenshots_dir env @ [''baseline'']
      | Actual f \<Rightarrow> screenshots_dir env @ [''actual'']
      | Shot f \<Rightarrow> screenshots_dir env
      | Other segs \<Rightarrow> butlast segs)"

definition is_dir :: "'w env \<Rightarrow> string list \<Rightarrow> bool" where
  "is_dir env d =
     (d = take (length d) (screenshots_dir env) \<or>
      d = screenshots_dir env @ [''baseline''] \<or>
      d = screenshots_dir env @ [''actual''] \<or>
      dir_exists env d)"

definition writeFile :: "'w env \<Rightarrow> files \<Rightarrow> path \<Rightarrow> buffer \<Rightarrow> string + files" where
  "writeFile env fs p b =
     (if is_dir env (dir_of env p) then Inr (put fs p b)
      else Inl ''ENOENT: no such file or directory'')"

subsection \<open>State\<close>

text \<open>
  \<open>lastResponse\<close> is the executor's field; \<open>perfResults\<close> and \<open>visualDiff\<close> are the
  properties \<^verbatim>\<open>_perfResults\<close> (its latencies; average, minimum and maximum are computed
  from them) and \<^verbatim>\<open>_visualDiff\<close> the executor attaches to the page. \<open>trace\<close> records
  the browser calls made, \<open>console\<close> the console lines of the visual check, \<open>sessions\<close>
  the contexts opened and closed, \<open>results\<close> the reporter's list.
\<close>

datatype console_line =
    SkippingVisualCheck
  | BaselineNotFoundSavingNew string
  | VisualCheckPassed
  | VisualRegressionDetected nat
  | FailedToGenerateVisualDiff string

datatype session_event = Opened ctx_options | Closed

datatype status = PASS | FAIL

record TestResult =
  r_id :: string
  r_name :: string
  r_configFile :: string
  r_templateId :: string
  r_status :: status
  r_duration :: int
  r_error :: "string option"
  r_screenshot :: "path option"
  r_timestamp :: nat
  r_perfData :: "int list option"
  r_visualDiff :: "path option"
  r_baselineImage :: "path option"

record 'w state =
  world :: 'w
  lastResponse :: "response option"
  perfResults :: "int list option"
  visualDiff :: "path option"
  files :: files
  trace :: "browser_call list"
  console :: "console_line list"
  sessions :: "session_event list"
  results :: "TestResult list"

text \<open>A call returns with the new state, or throws an \<^verbatim>\<open>Error\<close> with a message.\<close>

datatype 's outcome = Ok 's | Threw string 's

definition do_page :: "'w env \<Rightarrow> page_action \<Rightarrow> 'w state \<Rightarrow> 'w state outcome" where
  "do_page env a st =
     (case page_do env a (world st) of
        (r, w') \<Rightarrow>
          (let st' = st\<lparr>world := w', trace := trace st @ [Did a]\<rparr>
           in case r of None \<Rightarrow> Ok st' | Some e \<Rightarrow> Threw e st'))"

definition do_fetch ::
  "'w env \<Rightarrow> string option \<Rightarrow> string option \<Rightarrow> string option \<Rightarrow> 'w state
     \<Rightarrow> (string + response) \<times> 'w state" where
  "do_fetch env url method body st =
     (case page_fetch env url method body (world st) of
        (r, w') \<Rightarrow> (r, st\<lparr>world := w', trace := trace st @ [Fetched url method body]\<rparr>))"

subsection \<open>parseInt\<close>

text \<open>
  \<^verbatim>\<open>parseInt(s)\<close> without a radix: leading white space is skipped, a sign is read, a
  prefix \<^verbatim>\<open>0x\<close> selects base 16, and the longest run of digits is the value;
  \<^verbatim>\<open>NaN\<close> (\<open>None\<close>) when there is no digit.
\<close>

definition is_space :: "char \<Rightarrow> bool" where
  "is_space c = (c \<in> set [CHR '' '', CHR 0x09, CHR 0x0A, CHR 0x0B, CHR 0x0C, CHR 0x0D])"

definition digit_of :: "char \<Rightarrow> nat" where
  "digit_of c =
     (let n = (of_char c :: nat) in
      if 48 \<le> n \<and> n \<le> 57 then n - 48
      else if 97 \<le> n \<and> n \<le> 122 then n - 87
      else if 65 \<le> n \<and> n \<le> 90 then n - 55
      else 36)"

definition parseInt :: "string option \<Rightarrow> int option" where
  "parseInt v =
     (let s = dropWhile is_space (js_string v);
          neg = startsWith s ''-'';
          s1 = (if startsWith s ''-'' \<or> startsWith s ''+'' then drop 1 s else s);
          hex = (startsWith s1 ''0x'' \<or> startsWith s1 ''0X'');
          radix = (if hex then 16 else 10);
          s2 = (if hex then drop 2 s1 else s1);
          ds = takeWhile (\<lambda>d. d < radix) (map digit_of s2)
      in if ds = [] then None
         else Some ((if neg then - 1 else 1) * int (foldl (\<lambda>a d. a * radix + d) 0 ds)))"

fun show_num :: "int option \<Rightarrow> string" where
  "show_num None = ''NaN''"
| "show_num (Some i) = show_int i"

subsection \<open>The action compare_screenshot\<close>

text \<open>
  The comparison step of \<^verbatim>\<open>execute\<close>. The candidate is the page's screenshot; the
  baseline is \<^verbatim>\<open>screenshots/baseline/<name>.png\<close>. The diff raster has the baseline's
  dimensions, and \<^verbatim>\<open>pixelmatch\<close> is called with the baseline's width and height and the
  threshold 0.1. A write that throws ends the step where it stands: the warning of the
  first run is logged before the baseline is written, the diff is written before the
  actual image, and the regression is logged after both.
\<close>

definition threshold :: rat where
  "threshold = 1 / 10"

definition diff_name :: "string \<Rightarrow> nat \<Rightarrow> string" where
  "diff_name snapshotName now = ''diff-'' @ snapshotName @ ''-'' @ show_nat now @ ''.png''"

definition regression_message :: "nat \<Rightarrow> string" where
  \<open>regression_message numDiffPixels =
     ''Visual regression detected: '' @ show_nat numDiffPixels @
     '' pixels differ. Run 'npm run baseline:approve' to accept changes.''\<close>

definition compare_screenshot :: "'w env \<Rightarrow> string list \<Rightarrow> 'w state \<Rightarrow> 'w state outcome" where
  "compare_screenshot env resolvedParams st =
     (if falsy (nth_opt resolvedParams 0)
      then Ok (st\<lparr>console := console st @ [SkippingVisualCheck]\<rparr>)
      else
        let snapshotName = js_string (nth_opt resolvedParams 0);
            screenshotBuffer = page_screenshot env (world st);
            st1 = st\<lparr>trace := trace st @ [Screenshot]\<rparr>;
            baselinePath = locate env [''baseline''] (snapshotName @ ''.png'');
            actualPath = locate env [''actual''] (snapshotName @ ''.png'')
        in
        if \<not> pathExists (files st1) baselinePath
        then
          (let st2 = st1\<lparr>console := console st1 @ [BaselineNotFoundSavingNew snapshotName]\<rparr>
           in case writeFile env (files st2) baselinePath screenshotBuffer of
                Inl e \<Rightarrow> Threw e st2
              | Inr fs1 \<Rightarrow> Ok (st2\<lparr>files := fs1\<rparr>))
        else
          (case readFile (files st1) baselinePath of
             Inl e \<Rightarrow> Threw e st1
           | Inr baselineBuffer \<Rightarrow>
          (case png_read baselineBuffer of
             Inl e \<Rightarrow> Threw e st1
           | Inr img1 \<Rightarrow>
          (case png_read screenshotBuffer of
             Inl e \<Rightarrow> Threw e st1
           | Inr img2 \<Rightarrow>
          (case pixelmatch env (data img1) (data img2) (width img1) (height img1) threshold of
             Inl e \<Rightarrow> Threw e st1
           | Inr (numDiffPixels, diffData) \<Rightarrow>
               if numDiffPixels > 0
               then
                 (let diffPath = locate env [] (diff_name snapshotName (date_now env (world st1)));
                      diff = Png \<lparr>width = width img1, height = height img1, data = diffData\<rparr>
                  in case writeFile env (files st1) diffPath diff of
                       Inl e \<Rightarrow> Threw e st1
                     | Inr fs1 \<Rightarrow>
                    (case writeFile env fs1 actualPath screenshotBuffer of
                       Inl e \<Rightarrow> Threw e (st1\<lparr>files := fs1\<rparr>)
                     | Inr fs2 \<Rightarrow>
                         Threw (regression_message numDiffPixels)
                           (st1\<lparr>files := fs2,
                                console := console st1 @ [VisualRegressionDetected numDiffPixels],
                                visualDiff := Some diffPath\<rparr>)))
               else
                 Ok (st1\<lparr>console := console st1 @ [VisualCheckPassed],
                          files := (if pathExists (files st1) actualPath
                                    then remove (files st1) actualPath
                                    else files st1)\<rparr>))))))"

subsection \<open>The other actions\<close>

text \<open>
  The loop of \<^verbatim>\<open>measure_performance\<close>: one fetch per iteration, the latency being the
  difference of \<^verbatim>\<open>Date.now()\<close> after and before it.
\<close>

fun perf_loop ::
  "'w env \<Rightarrow> string option \<Rightarrow> string option \<Rightarrow> nat \<Rightarrow> int list \<Rightarrow> 'w state
     \<Rightarrow> (string + int list) \<times> 'w state" where
  "perf_loop env perfUrl perfMethod 0 latencies st = (Inr latencies, st)"
| "perf_loop env perfUrl perfMethod (Suc n) latencies st =
     (let start = date_now env (world st)
      in case do_fetch env perfUrl perfMethod None st of
           (Inl e, st') \<Rightarrow> (Inl e, st')
         | (Inr r, st') \<Rightarrow>
             perf_loop env perfUrl perfMethod n
               (latencies @ [int (date_now env (world st')) - int start]) st')"

definition not_in_body :: "string \<Rightarrow> string" where
  \<open>not_in_body expected = ''Response body does not contain "'' @ expected @ ''"''\<close>

definition no_response :: string where
  \<open>no_response = ''No API response to check. Run "request" first.''\<close>

text \<open>The bodies of the longer cases of the \<^verbatim>\<open>switch\<close> of \<^verbatim>\<open>execute\<close>.\<close>

definition request :: "'w env \<Rightarrow> string list \<Rightarrow> 'w state \<Rightarrow> 'w state outcome" where
  "request env rp st =
     (let method = nth_opt rp 0; url = nth_opt rp 1; body = nth_opt rp 2;
          payload = (if \<not> falsy body \<and> dropWhile is_space (js_string body) \<noteq> []
                     then body else None)
      in case do_fetch env url method payload st of
           (Inl e, st') \<Rightarrow> Threw e st'
         | (Inr r, st') \<Rightarrow> Ok (st'\<lparr>lastResponse := Some r\<rparr>))"

definition expect_status :: "string list \<Rightarrow> 'w state \<Rightarrow> 'w state outcome" where
  "expect_status rp st =
     (case lastResponse st of
        None \<Rightarrow> Threw no_response st
      | Some r \<Rightarrow>
          (let expectedStatus = parseInt (nth_opt rp 0)
           in if Some (resp_status r) \<noteq> expectedStatus
              then Threw (''Expected status '' @ show_num expectedStatus @ '' but got '' @
                          show_int (resp_status r)) st
              else Ok st))"

definition expect_response_body :: "string list \<Rightarrow> 'w state \<Rightarrow> 'w state outcome" where
  "expect_response_body rp st =
     (case lastResponse st of
        None \<Rightarrow> Threw no_response st
      | Some r \<Rightarrow>
          if \<not> str_includes (resp_text r) (js_string (nth_opt rp 0))
          then Threw (not_in_body (js_string (nth_opt rp 0))) st
          else Ok st)"

definition measure_performance :: "'w env \<Rightarrow> string list \<Rightarrow> 'w state \<Rightarrow> 'w state outcome" where
  "measure_performance env rp st =
     (let perfMethod = nth_opt rp 0; perfUrl = nth_opt rp 1;
          iterations = parseInt (nth_opt rp 2)
      in case perf_loop env perfUrl perfMethod
                (case iterations of None \<Rightarrow> 0 | Some i \<Rightarrow> nat i) [] st of
           (Inl e, st') \<Rightarrow> Threw e st'
         | (Inr latencies, st') \<Rightarrow> Ok (st'\<lparr>perfResults := Some latencies\<rparr>))"

definition custom_action :: "'w env \<Rightarrow> string \<Rightarrow> string list \<Rightarrow> 'w state \<Rightarrow> 'w state outcome" where
  "custom_action env act rp st =
     (case plugins env act of
        Some plugin \<Rightarrow>
          (case plugin rp (world st) of
             (r, w') \<Rightarrow>
               (let st' = st\<lparr>world := w', trace := trace st @ [Plugin act rp]\<rparr>
                in case r of None \<Rightarrow> Ok st' | Some e \<Rightarrow> Threw e st'))
      | None \<Rightarrow> Threw (''Unknown action: '' @ act) st)"

text \<open>
  The \<^verbatim>\<open>switch\<close> of \<^verbatim>\<open>execute\<close>, in the order of its cases; the default case looks
  the action up among the plugins.
\<close>

definition dispatch :: "'w env \<Rightarrow> string \<Rightarrow> string list \<Rightarrow> 'w state \<Rightarrow> 'w state outcome" where
  "dispatch env act rp st =
     (if act = ''goto'' then do_page env (Goto (nth_opt rp 0)) st
      else if act = ''type'' then
        (if falsy (nth_opt rp 0) then Ok st
         else do_page env (Fill (nth_opt rp 0) (nth_opt rp 1)) st)
      else if act = ''click'' then
        (if falsy (nth_opt rp 0) then Ok st
         else do_page env (Click (nth_opt rp 0)) st)
      else if act = ''expect_text'' then
        (if nth_opt rp 1 = Some [] then do_page env (ExpectVisible (nth_opt rp 0)) st
         else do_page env (ExpectContainsText (nth_opt rp 0) (nth_opt rp 1)) st)
      else if act = ''expect_url'' then do_page env (ExpectURL (nth_opt rp 0)) st
      else if act = ''wait'' then do_page env (WaitForTimeout (parseInt (nth_opt rp 0))) st
      else if act = ''request'' then request env rp st
      else if act = ''expect_status'' then expect_status rp st
      else if act = ''expect_response_body'' then expect_response_body rp st
      else if act = ''measure_performance'' then measure_performance env rp st
      else if act = ''compare_screenshot'' then compare_screenshot env rp st
      else custom_action env act rp st)"

text \<open>
  \<^verbatim>\<open>execute\<close>: the parameters are resolved first, outside the \<^verbatim>\<open>try\<close>; whatever the
  \<^verbatim>\<open>switch\<close> throws is caught and thrown again with the action's name in front.
\<close>

definition step_failed :: "string \<Rightarrow> string \<Rightarrow> string" where
  "step_failed act message = ''Step failed: '' @ act @ '' - '' @ message"

definition execute :: "'w env \<Rightarrow> TemplateStep \<Rightarrow> params \<Rightarrow> 'w state \<Rightarrow> 'w state outcome" where
  "execute env step ps st =
     (case resolveParams (process_env env) (params step) ps of
        Inl e \<Rightarrow> Threw e st
      | Inr resolvedParams \<Rightarrow>
          (case dispatch env (action step) resolvedParams st of
             Ok st' \<Rightarrow> Ok st'
           | Threw e st' \<Rightarrow> Threw (step_failed (action step) e) st'))"

section \<open>The run scheduler (runSingleTest)\<close>

text \<open>
  The calls the scheduler itself makes on the browser, \<^verbatim>\<open>browser.newContext\<close>,
  \<^verbatim>\<open>context.newPage\<close>, \<^verbatim>\<open>context.close\<close> and the \<^verbatim>\<open>page.screenshot\<close> of the failure
  handler, are taken to return.
\<close>

record TestConfig =
  c_id :: string
  c_name :: string
  c_templateId :: "string option"
  c_workflow :: "string list option"
  c_parameters :: params
  c_data :: "string option"
  c_device :: "string option"
  c_viewport :: "(nat \<times> nat) option"
  c_tags :: "string list option"

definition addResult :: "TestResult \<Rightarrow> 'w state \<Rightarrow> 'w state" where
  "addResult r st = st\<lparr>results := results st @ [r]\<rparr>"

text \<open>
  A fresh context with its page and a new \<^verbatim>\<open>StepExecutor\<close>: nothing is attached to the
  page yet and there is no last response.
\<close>

definition open_session :: "'w env \<Rightarrow> ctx_options \<Rightarrow> 'w state \<Rightarrow> 'w state" where
  "open_session env opts st =
     st\<lparr>world := newContext env opts (world st),
        sessions := sessions st @ [Opened opts],
        lastResponse := None, perfResults := None, visualDiff := None\<rparr>"

definition close_session :: "'w env \<Rightarrow> 'w state \<Rightarrow> 'w state" where
  "close_session env st =
     st\<lparr>world := closeContext env (world st), sessions := sessions st @ [Closed]\<rparr>"

definition contextOptions :: "'w env \<Rightarrow> TestConfig \<Rightarrow> ctx_options" where
  "contextOptions env config =
     \<lparr>emulate = (if falsy (c_device config) then None
                 else if devices env (js_string (c_device config)) then c_device config
                 else None),
      viewport = c_viewport config\<rparr>"

text \<open>\<^verbatim>\<open>config.workflow || [config.templateId!]\<close>; an absent \<^verbatim>\<open>templateId\<close> is \<^verbatim>\<open>undefined\<close>.\<close>

definition templatesToRun :: "TestConfig \<Rightarrow> string option list" where
  "templatesToRun config =
     (case c_workflow config of Some ids \<Rightarrow> map Some ids | None \<Rightarrow> [c_templateId config])"

fun join_plus :: "string list \<Rightarrow> string" where
  "join_plus [] = []"
| "join_plus [x] = x"
| "join_plus (x # y # ys) = x @ ''+'' @ join_plus (y # ys)"

definition template_label :: "TestConfig \<Rightarrow> string" where
  "template_label config =
     (if \<not> falsy (c_templateId config) then js_string (c_templateId config)
      else case c_workflow config of
             None \<Rightarrow> ''unknown''
           | Some ids \<Rightarrow> if join_plus ids = [] then ''unknown'' else join_plus ids)"

fun run_steps :: "'w env \<Rightarrow> TemplateStep list \<Rightarrow> params \<Rightarrow> 'w state \<Rightarrow> 'w state outcome" where
  "run_steps env [] ps st = Ok st"
| "run_steps env (step # rest) ps st =
     (case execute env step ps st of
        Ok st' \<Rightarrow> run_steps env rest ps st'
      | Threw e st' \<Rightarrow> Threw e st')"

fun run_templates :: "'w env \<Rightarrow> string option list \<Rightarrow> params \<Rightarrow> 'w state \<Rightarrow> 'w state outcome" where
  "run_templates env [] ps st = Ok st"
| "run_templates env (tmplId # rest) ps st =
     (case (case tmplId of None \<Rightarrow> None | Some i \<Rightarrow> loadTemplate env i) of
        None \<Rightarrow> Threw (''Template '' @ js_string tmplId @ '' not found'') st
      | Some template \<Rightarrow>
          (case run_steps env (steps template) ps st of
             Ok st' \<Rightarrow> run_templates env rest ps st'
           | Threw e st' \<Rightarrow> Threw e st'))"

text \<open>
  The visual-diff enrichment of a failure: the baseline of \<^verbatim>\<open>rowParams.snapshotName\<close>
  against the failure screenshot just written. It yields \<^verbatim>\<open>visualDiff\<close> and
  \<^verbatim>\<open>baselineImage\<close>; whatever is thrown inside is caught and logged.
\<close>

definition enrich ::
  "'w env \<Rightarrow> params \<Rightarrow> path \<Rightarrow> 'w state \<Rightarrow> (path option \<times> path option) \<times> 'w state" where
  "enrich env rowParams screenshotPath st =
     (if visualDiff st = None \<and> \<not> falsy (rowParams ''snapshotName'') then
        (let snapshotName = js_string (rowParams ''snapshotName'');
             baselinePath = locate env [''baseline''] (snapshotName @ ''.png'');
             swallow = (\<lambda>e. ((None, None), st\<lparr>console := console st @ [FailedToGenerateVisualDiff e]\<rparr>))
         in
         if pathExists (files st) baselinePath then
           (case readFile (files st) baselinePath of
              Inl e \<Rightarrow> swallow e
            | Inr baselineBuffer \<Rightarrow>
           (case readFile (files st) screenshotPath of
              Inl e \<Rightarrow> swallow e
            | Inr actualBuffer \<Rightarrow>
           (case png_read baselineBuffer of
              Inl e \<Rightarrow> swallow e
            | Inr img1 \<Rightarrow>
           (case png_read actualBuffer of
              Inl e \<Rightarrow> swallow e
            | Inr img2 \<Rightarrow>
                if width img2 = width img1 \<and> height img2 = height img1 then
                  (case pixelmatch env (data img1) (data img2) (width img1) (height img1) threshold of
                     Inl e \<Rightarrow> swallow e
                   | Inr (numDiffPixels, diffData) \<Rightarrow>
                       if numDiffPixels > 0 then
                         (let diffPath = locate env [] (diff_name snapshotName (date_now env (world st)));
                              diff = Png \<lparr>width = width img1, height = height img1, data = diffData\<rparr>
                          in case writeFile env (files st) diffPath diff of
                               Inl e \<Rightarrow> swallow e
                             | Inr fs1 \<Rightarrow> ((Some diffPath, Some baselinePath), st\<lparr>files := fs1\<rparr>))
                       else ((None, None), st))
                else ((None, None), st)))))
         else ((None, None), st))
      else ((visualDiff st, None), st))"

definition fail_name :: "string \<Rightarrow> nat \<Rightarrow> string" where
  "fail_name testId now = ''fail-'' @ testId @ ''-'' @ show_nat now @ ''.png''"

text \<open>
  The handler of the last failed attempt, up to and including \<^verbatim>\<open>addResult\<close>. The
  failure screenshot is the file \<open>Shot\<close> of its name as written: \<^verbatim>\<open>page.screenshot\<close> makes
  the directory of its path.
\<close>

definition record_failure ::
  "'w env \<Rightarrow> TestConfig \<Rightarrow> params \<Rightarrow> string \<Rightarrow> string \<Rightarrow> nat \<Rightarrow> string \<Rightarrow> 'w state \<Rightarrow> 'w state" where
  "record_failure env config rowParams testId testName startTime e st =
     (let screenshotPath = Shot (fail_name testId (date_now env (world st)));
          st1 = st\<lparr>files := put (files st) screenshotPath (page_screenshot env (world st)),
                   trace := trace st @ [Screenshot]\<rparr>
      in case enrich env rowParams screenshotPath st1 of
           ((vDiff, baselineImage), st2) \<Rightarrow>
             addResult
               \<lparr>r_id = testId, r_name = testName, r_configFile = c_id config @ ''.json'',
                r_templateId = template_label config, r_status = FAIL,
                r_duration = int (date_now env (world st2)) - int startTime,
                r_error = Some e, r_screenshot = Some screenshotPath,
                r_timestamp = date_now env (world st2), r_perfData = None,
                r_visualDiff = vDiff, r_baselineImage = baselineImage\<rparr> st2)"

definition record_pass ::
  "'w env \<Rightarrow> TestConfig \<Rightarrow> string \<Rightarrow> string \<Rightarrow> nat \<Rightarrow> 'w state \<Rightarrow> 'w state" where
  "record_pass env config testId testName startTime st =
     addResult
       \<lparr>r_id = testId, r_name = testName, r_configFile = c_id config @ ''.json'',
        r_templateId = template_label config, r_status = PASS,
        r_duration = int (date_now env (world st)) - int startTime,
        r_error = None, r_screenshot = None,
        r_timestamp = date_now env (world st), r_perfData = perfResults st,
        r_visualDiff = None, r_baselineImage = None\<rparr> st"

text \<open>
  The retry loop of one data row, \<^verbatim>\<open>for (attempt = 0; attempt <= maxRetries; attempt++)\<close>:
  a success ends it (\<^verbatim>\<open>break\<close>), a failure with attempts left closes the context and
  goes on (\<^verbatim>\<open>continue\<close>), the last failure is recorded and the loop runs out.
\<close>

function retry_loop ::
  "'w env \<Rightarrow> TestConfig \<Rightarrow> params \<Rightarrow> string \<Rightarrow> string \<Rightarrow> int \<Rightarrow> int \<Rightarrow> 'w state \<Rightarrow> 'w state" where
  "retry_loop env config rowParams testId testName maxRetries attempt st =
     (if attempt \<le> maxRetries then
        (let st1 = open_session env (contextOptions env config) st;
             startTime = date_now env (world st1)
         in case run_templates env (templatesToRun config) rowParams st1 of
              Ok st2 \<Rightarrow> close_session env (record_pass env config testId testName startTime st2)
            | Threw e st2 \<Rightarrow>
                if attempt < maxRetries
                then retry_loop env config rowParams testId testName maxRetries (attempt + 1)
                       (close_session env st2)
                else retry_loop env config rowParams testId testName maxRetries (attempt + 1)
                       (close_session env
                          (record_failure env config rowParams testId testName startTime e st2)))
      else st)"
  by pat_completeness auto
termination
  by (relation "measure (\<lambda>(env, config, rowParams, testId, testName, maxRetries, attempt, st).
        nat (maxRetries + 1 - attempt))") auto

declare retry_loop.simps [simp del]

definition rowSuffix :: "nat \<Rightarrow> nat \<Rightarrow> string" where
  "rowSuffix n i = (if n > 1 then '' (Row '' @ show_nat (i + 1) @ '')'' else [])"

definition testId_of :: "TestConfig \<Rightarrow> nat \<Rightarrow> nat \<Rightarrow> string" where
  "testId_of config n i = c_id config @ (if n > 1 then ''_row_'' @ show_nat (i + 1) else [])"

definition testName_of :: "TestConfig \<Rightarrow> nat \<Rightarrow> nat \<Rightarrow> string" where
  "testName_of config n i = c_name config @ rowSuffix n i"

text \<open>The loop over the data rows; \<open>n\<close> is \<^verbatim>\<open>dataRows.length\<close> and \<open>i\<close> the row's index.\<close>

fun run_rows ::
  "'w env \<Rightarrow> TestConfig \<Rightarrow> int \<Rightarrow> nat \<Rightarrow> nat \<Rightarrow> params list \<Rightarrow> 'w state \<Rightarrow> 'w state" where
  "run_rows env config maxRetries n i [] st = st"
| "run_rows env config maxRetries n i (rowParams # rest) st =
     run_rows env config maxRetries n (Suc i) rest
       (retry_loop env config rowParams (testId_of config n i) (testName_of config n i)
          maxRetries 0 st)"

text \<open>
  The fan-out: without a data file the only row is the configuration's parameters; the
  rows of a data file are spread over them, \<^verbatim>\<open>{ ...config.parameters, ...row }\<close>.
\<close>

definition dataRows_of :: "'w env \<Rightarrow> TestConfig \<Rightarrow> string + params list" where
  "dataRows_of env config =
     (if falsy (c_data config) then Inr [c_parameters config]
      else case loadData env (js_string (c_data config)) of
             Inl e \<Rightarrow> Inl e
           | Inr loadedData \<Rightarrow> Inr (map (\<lambda>row. c_parameters config ++ row) loadedData))"

definition failed_to_load :: "string \<Rightarrow> string" where
  "failed_to_load message = ''Failed to load data: '' @ message"

definition runSingleTest :: "'w env \<Rightarrow> TestConfig \<Rightarrow> int \<Rightarrow> 'w state \<Rightarrow> 'w state" where
  "runSingleTest env config maxRetries st =
     (case dataRows_of env config of
        Inl e \<Rightarrow>
          addResult
            \<lparr>r_id = c_id config, r_name = c_name config, r_configFile = c_id config @ ''.json'',
             r_templateId = (if falsy (c_templateId config) then ''unknown''
                             else js_string (c_templateId config)),
             r_status = FAIL, r_duration = 0,
             r_error = Some (failed_to_load e), r_screenshot = None,
             r_timestamp = date_now env (world st), r_perfData = None,
             r_visualDiff = None, r_baselineImage = None\<rparr> st
      | Inr dataRows \<Rightarrow> run_rows env config maxRetries (length dataRows) 0 dataRows st)"

section \<open>The scheduler's entry point (runTests)\<close>

subsection \<open>Command-line arguments\<close>

text \<open>\<^verbatim>\<open>args.find(a => a.startsWith(p))\<close>.\<close>

fun find_arg :: "string \<Rightarrow> string list \<Rightarrow> string option" where
  "find_arg p [] = None"
| "find_arg p (a # as) = (if startsWith a p then Some a else find_arg p as)"

text \<open>
  \<open>cpus\<close> is \<^verbatim>\<open>os.cpus().length\<close>. \<^verbatim>\<open>parseInt(value) || 1\<close> is 1 when the number is
  \<^verbatim>\<open>NaN\<close> or 0.
\<close>

definition getConcurrency :: "nat \<Rightarrow> string list \<Rightarrow> int" where
  "getConcurrency cpus args =
     (case find_arg ''--parallel'' args of
        None \<Rightarrow> 1
      | Some parallelArg \<Rightarrow>
          (let v = nth_opt (split_on CHR ''='' parallelArg) 1
           in if v = Some ''auto'' then int cpus
              else case parseInt v of None \<Rightarrow> 1 | Some n \<Rightarrow> if n = 0 then 1 else n))"

definition getRetries :: "string list \<Rightarrow> int" where
  "getRetries args =
     (case find_arg ''--retries'' args of
        None \<Rightarrow> 0
      | Some retriesArg \<Rightarrow>
          (case parseInt (nth_opt (split_on CHR ''='' retriesArg) 1) of
             None \<Rightarrow> 0
           | Some n \<Rightarrow> n))"

text \<open>
  \<^verbatim>\<open>args.indexOf('--tags')\<close> and the argument after it; the filter applies only when
  that argument is truthy.
\<close>

fun filterTag :: "string list \<Rightarrow> string option" where
  "filterTag [] = None"
| "filterTag (a # as) = (if a = ''--tags'' then nth_opt as 0 else filterTag as)"

definition testsToRun :: "string list \<Rightarrow> TestConfig list \<Rightarrow> TestConfig list" where
  "testsToRun args configs =
     (if falsy (filterTag args) then configs
      else filter (\<lambda>c. case c_tags c of
                          None \<Rightarrow> False
                        | Some tags \<Rightarrow> js_string (filterTag args) \<in> set tags) configs)"

subsection \<open>Batches\<close>

text \<open>
  \<^verbatim>\<open>array.slice(start, fin)\<close>, and the helper \<^verbatim>\<open>chunk\<close>, whose loop
  \<^verbatim>\<open>for (i = 0; i < array.length; i += size)\<close> does not end when \<open>size\<close> is not
  positive and the array is not empty: \<open>None\<close> stands for not returning.
\<close>

definition js_slice :: "'a list \<Rightarrow> int \<Rightarrow> int \<Rightarrow> 'a list" where
  "js_slice xs start fin =
     (let len = int (length xs);
          s = (if start < 0 then max (len + start) 0 else min start len);
          e = (if fin < 0 then max (len + fin) 0 else min fin len)
      in take (nat (e - s)) (drop (nat s) xs))"

partial_function (option) chunk_loop ::
  "'a list \<Rightarrow> int \<Rightarrow> int \<Rightarrow> 'a list list \<Rightarrow> 'a list list option" where
  "chunk_loop array sz i chunks =
     (if i < int (length array)
      then chunk_loop array sz (i + sz) (chunks @ [js_slice array i (i + sz)])
      else Some chunks)"

declare chunk_loop.simps [code]

definition chunk :: "'a list \<Rightarrow> int \<Rightarrow> 'a list list option" where
  "chunk array sz = chunk_loop array sz 0 []"

subsection \<open>What runTests schedules\<close>

text \<open>
  With nothing to run \<^verbatim>\<open>runTests\<close> returns at once. With concurrency 1 it awaits
  \<^verbatim>\<open>runSingleTest\<close> for one configuration after the other; otherwise it awaits, batch
  after batch, \<^verbatim>\<open>Promise.all\<close> of the batch's \<^verbatim>\<open>runSingleTest\<close> promises.
\<close>

datatype 'a plan = Nothing | Sequential "'a list" | Batches "'a list list"

definition runTests_plan :: "nat \<Rightarrow> string list \<Rightarrow> TestConfig list \<Rightarrow> TestConfig plan option" where
  "runTests_plan cpus args configs =
     (let concurrency = getConcurrency cpus args;
          tests = testsToRun args configs
      in if tests = [] then Some Nothing
         else if concurrency = 1 then Some (Sequential tests)
         else map_option Batches (chunk tests concurrency))"

text \<open>The sequential branch as a state transformer.\<close>

fun run_sequential :: "'w env \<Rightarrow> int \<Rightarrow> TestConfig list \<Rightarrow> 'w state \<Rightarrow> 'w state" where
  "run_sequential env maxRetries [] st = st"
| "run_sequential env maxRetries (config # rest) st =
     run_sequential env maxRetries rest (runSingleTest env config maxRetries st)"

text \<open>
  The session events one call of \<^verbatim>\<open>runSingleTest\<close> can produce, from any state. Awaiting
  calls one after the other concatenates their events; \<^verbatim>\<open>Promise.all\<close> lets the events
  of its members interleave in any order that keeps each member's own order, and
  \<^verbatim>\<open>await\<close> on it returns when all members have finished.
\<close>

definition unit_runs :: "'w env \<Rightarrow> int \<Rightarrow> TestConfig \<Rightarrow> session_event list set" where
  "unit_runs env maxRetries config =
     {evs. \<exists>st. sessions (runSingleTest env config maxRetries st) = sessions st @ evs}"

fun one_after_another :: "'a list set list \<Rightarrow> 'a list set" where
  "one_after_another [] = {[]}"
| "one_after_another (A # As) = {a @ b | a b. a \<in> A \<and> b \<in> one_after_another As}"

fun all_at_once :: "'a list set list \<Rightarrow> 'a list set" where
  "all_at_once [] = {[]}"
| "all_at_once (A # As) = (\<Union>a \<in> A. \<Union>b \<in> all_at_once As. shuffles a b)"

fun plan_traces :: "'w env \<Rightarrow> int \<Rightarrow> TestConfig plan \<Rightarrow> session_event list set" where
  "plan_traces env maxRetries Nothing = {[]}"
| "plan_traces env maxRetries (Sequential tests) =
     one_after_another (map (unit_runs env maxRetries) tests)"
| "plan_traces env maxRetries (Batches batches) =
     one_after_another (map (\<lambda>batch. all_at_once (map (unit_runs env maxRetries) batch)) batches)"

text \<open>The number of sessions open after a sequence of events.\<close>

fun open_sessions :: "session_event list \<Rightarrow> int" where
  "open_sessions [] = 0"
| "open_sessions (Opened opts # evs) = open_sessions evs + 1"
| "open_sessions (Closed # evs) = open_sessions evs - 1"

section \<open>The approval workflow (approveBaselines)\<close>

datatype decision = approve | reject | skip

text \<open>
  \<^verbatim>\<open>fs.readdir(ACTUAL_DIR)\<close>, and \<^verbatim>\<open>fs.move(src, dest, {overwrite: true})\<close>, which throws
  when the source does not exist. A missing directory has no entries.
\<close>

fun readdir_actual :: "files \<Rightarrow> string list" where
  "readdir_actual [] = []"
| "readdir_actual ((Actual f, b) # fs) = f # readdir_actual fs"
| "readdir_actual ((p, b) # fs) = readdir_actual fs"

definition move :: "files \<Rightarrow> path \<Rightarrow> path \<Rightarrow> string + files" where
  "move fs src dest =
     (case map_of fs src of
        None \<Rightarrow> Inl ''ENOENT: no such file or directory''
      | Some b \<Rightarrow> Inr (put (remove fs src) dest b))"

definition basename_png :: "string \<Rightarrow> string" where
  "basename_png file = (if endsWith file ''.png'' then take (length file - 4) file else file)"

text \<open>
  The loop over the pending files. \<open>prompt\<close> is the reviewer's answer for a snapshot
  name; the decision is applied before the next file is looked at.
\<close>

fun review :: "(string \<Rightarrow> decision) \<Rightarrow> string list \<Rightarrow> files \<Rightarrow> files outcome" where
  "review prompt [] fs = Ok fs"
| "review prompt (file # rest) fs =
     (case prompt (basename_png file) of
        approve \<Rightarrow>
          (case move fs (Actual file) (Baseline file) of
             Inl e \<Rightarrow> Threw e fs
           | Inr fs' \<Rightarrow> review prompt rest fs')
      | reject \<Rightarrow> review prompt rest (remove fs (Actual file))
      | skip \<Rightarrow> review prompt rest fs)"

definition approveBaselines :: "(string \<Rightarrow> decision) \<Rightarrow> files \<Rightarrow> files outcome" where
  "approveBaselines prompt fs =
     review prompt (filter (\<lambda>f. endsWith f ''.png'') (readdir_actual fs)) fs"

section \<open>Notions used in the statements\<close>

text \<open>
  A value written \<^verbatim>\<open>{{key}}\<close>, and one written \<^verbatim>\<open>{{env.NAME}}\<close>; the message thrown
  for an environment variable that is not defined.
\<close>

definition placeholder :: "string \<Rightarrow> string" where
  "placeholder key = ''{{'' @ key @ ''}}''"

definition env_placeholder :: "string \<Rightarrow> string" where
  "env_placeholder name = placeholder (''env.'' @ name)"

definition is_placeholder :: "string \<Rightarrow> bool" where
  "is_placeholder v = (\<exists>key. v = placeholder key)"

definition undefined_variable :: "string \<Rightarrow> string" where
  "undefined_variable envVar =
     ''Environment variable '' @ envVar @ '' is not defined. Please set it in your .env file.''"

fun state_of :: "'s outcome \<Rightarrow> 's" where
  "state_of (Ok s) = s"
| "state_of (Threw e s) = s"

text \<open>
  One attempt of the retry loop: a fresh session, then every template of the unit from
  its first step on. \<open>before_attempt k st\<close> is the state in which attempt number \<open>k\<close>
  (counted from 0) begins when the loop starts in \<open>st\<close> and the \<open>k\<close> attempts before it
  have all failed; it is \<open>None\<close> when one of them succeeds.
\<close>

definition attempt :: "'w env \<Rightarrow> TestConfig \<Rightarrow> params \<Rightarrow> 'w state \<Rightarrow> 'w state outcome" where
  "attempt env config rowParams st =
     run_templates env (templatesToRun config) rowParams
       (open_session env (contextOptions env config) st)"

fun before_attempt :: "'w env \<Rightarrow> TestConfig \<Rightarrow> params \<Rightarrow> nat \<Rightarrow> 'w state \<Rightarrow> 'w state option" where
  "before_attempt env config rowParams 0 st = Some st"
| "before_attempt env config rowParams (Suc k) st =
     (case attempt env config rowParams st of
        Ok st' \<Rightarrow> None
      | Threw e st' \<Rightarrow> before_attempt env config rowParams k (close_session env st'))"

definition startTime_of :: "'w env \<Rightarrow> TestConfig \<Rightarrow> 'w state \<Rightarrow> nat" where
  "startTime_of env config st =
     date_now env (world (open_session env (contextOptions env config) st))"

text \<open>The session events of \<open>n\<close> attempts: each opens a context and closes it.\<close>

definition pair_of_events :: "'w env \<Rightarrow> TestConfig \<Rightarrow> nat \<Rightarrow> session_event list" where
  "pair_of_events env config n = concat (replicate n [Opened (contextOptions env config), Closed])"

text \<open>
  Never more than \<open>m\<close> sessions are open during \<open>tr\<close>, and none is left open at its end.
\<close>

definition within_limit :: "int \<Rightarrow> session_event list \<Rightarrow> bool" where
  "within_limit m tr =
     ((\<forall>n. 0 \<le> open_sessions (take n tr) \<and> open_sessions (take n tr) \<le> m) \<and>
      open_sessions tr = 0)"

text \<open>A file of \<^verbatim>\<open>screenshots/actual\<close> that the approval workflow lists.\<close>

definition pending_png :: "files \<Rightarrow> string \<Rightarrow> bool" where
  "pending_png fs f = (pathExists fs (Actual f) \<and> endsWith f ''.png'')"

section \<open>An example environment\<close>

text \<open>
  A comparator to run the examples with: it makes the two size checks of
  \<^verbatim>\<open>pixelmatch\<close> and counts the pixels whose four bytes are not all equal.
\<close>

fun pixels_differing :: "byte list \<Rightarrow> byte list \<Rightarrow> nat" where
  "pixels_differing (r1 # g1 # b1 # a1 # rest1) (r2 # g2 # b2 # a2 # rest2) =
     (if r1 = r2 \<and> g1 = g2 \<and> b1 = b2 \<and> a1 = a2 then 0 else 1) + pixels_differing rest1 rest2"
| "pixels_differing img1 img2 = 0"

definition pixelmatch_exact ::
  "byte list \<Rightarrow> byte list \<Rightarrow> nat \<Rightarrow> nat \<Rightarrow> rat \<Rightarrow> string + (nat \<times> byte list)" where
  "pixelmatch_exact img1 img2 w h t =
     (if length img1 \<noteq> length img2 then Inl ''Image sizes do not match.''
      else if length img1 \<noteq> w * h * 4 then Inl ''Image data size does not match width/height.''
      else Inr (pixels_differing img1 img2, map (\<lambda>b. 0) img1))"

definition black_1x2 :: raster where
  "black_1x2 = \<lparr>width = 1, height = 2, data = [0, 0, 0, 255, 0, 0, 0, 255]\<rparr>"

definition white_1x2 :: raster where
  "white_1x2 = \<lparr>width = 1, height = 2, data = [255, 255, 255, 255, 255, 255, 255, 255]\<rparr>"

definition white_1x1 :: raster where
  "white_1x1 = \<lparr>width = 1, height = 1, data = [255, 255, 255, 255]\<rparr>"

definition white_2x1 :: raster where
  "white_2x1 = \<lparr>width = 2, height = 1, data = [255, 255, 255, 255, 255, 255, 255, 255]\<rparr>"

definition demo_templates :: "string \<Rightarrow> Template option" where
  "demo_templates = map_of
     [(''login'', \<lparr>t_id = ''login'', steps =
         [\<lparr>action = ''goto'', params = [''{{env.BASE_URL}}'']\<rparr>,
          \<lparr>action = ''type'', params = [''#user'', ''{{user}}'']\<rparr>,
          \<lparr>action = ''click'', params = [''#submit'']\<rparr>]\<rparr>),
      (''broken'', \<lparr>t_id = ''broken'', steps =
         [\<lparr>action = ''goto'', params = [''{{env.BASE_URL}}'']\<rparr>,
          \<lparr>action = ''click'', params = [''#missing'']\<rparr>]\<rparr>),
      (''secret'', \<lparr>t_id = ''secret'', steps =
         [\<lparr>action = ''goto'', params = [''{{env.SECRET_URL}}'']\<rparr>]\<rparr>),
      (''admin'', \<lparr>t_id = ''admin'', steps =
         [\<lparr>action = ''click'', params = [''#menu'']\<rparr>,
          \<lparr>action = ''goto'', params = [''{{env.ADMIN_URL}}'']\<rparr>,
          \<lparr>action = ''click'', params = [''#logout'']\<rparr>]\<rparr>)]"

text \<open>
  The world is a clock that every call advances. Clicking \<^verbatim>\<open>#missing\<close> fails; the
  page always shows the raster \<open>black_1x2\<close>; only \<^verbatim>\<open>BASE_URL\<close> is defined; the
  working directory is \<^verbatim>\<open>/work/app\<close>, and there are no further directories.
\<close>

definition demo_env :: "nat env" where
  "demo_env =
     \<lparr>page_do = (\<lambda>a w. (if a = Click (Some ''#missing'') then Some ''Timeout exceeded.'' else None, w + 1)),
      page_fetch = (\<lambda>url method body w. (Inr \<lparr>resp_status = 200, resp_text = ''ok''\<rparr>, w + 1)),
      page_screenshot = (\<lambda>w. Png black_1x2),
      date_now = (\<lambda>w. w),
      pixelmatch = pixelmatch_exact,
      process_env = [''BASE_URL'' \<mapsto> ''http://localhost:3000''],
      plugins = Map.empty,
      loadTemplate = demo_templates,
      loadData = (\<lambda>f. if f = ''users.json''
                       then Inr [[''user'' \<mapsto> ''alice''], [''user'' \<mapsto> ''bob'', ''role'' \<mapsto> ''admin'']]
                       else Inl (''Data file not found: '' @ f)),
      devices = (\<lambda>d. d = ''iPhone 12''),
      newContext = (\<lambda>opts w. w + 1),
      closeContext = (\<lambda>w. w + 1),
      dir_exists = (\<lambda>d. False),
      cwd = [''work'', ''app'']\<rparr>"

text \<open>The same with one more directory, \<^verbatim>\<open>/work/app/screenshots/baseline/a\<close>.\<close>

definition nested_env :: "nat env" where
  "nested_env =
     demo_env\<lparr>dir_exists := (\<lambda>d. d = [''work'', ''app'', ''screenshots'', ''baseline'', ''a''])\<rparr>"

definition demo_state :: "files \<Rightarrow> nat state" where
  "demo_state fs =
     \<lparr>world = 0, lastResponse = None, perfResults = None, visualDiff = None, files = fs,
      trace = [], console = [], sessions = [], results = []\<rparr>"

definition demo_config :: "string \<Rightarrow> TestConfig" where
  "demo_config tmpl =
     \<lparr>c_id = ''t1'', c_name = ''Test one'', c_templateId = Some tmpl, c_workflow = None,
      c_parameters = [''user'' \<mapsto> ''guest''], c_data = None, c_device = None,
      c_viewport = None, c_tags = None\<rparr>"

definition demo_workflow_config :: "string list \<Rightarrow> TestConfig" where
  "demo_workflow_config ids = (demo_config ''login'')\<lparr>c_templateId := None, c_workflow := Some ids\<rparr>"

definition demo_data_config :: "string \<Rightarrow> TestConfig" where
  "demo_data_config file = (demo_config ''login'')\<lparr>c_data := Some file\<rparr>"

definition demo_files :: files where
  "demo_files =
     [(Baseline ''home.png'', Png white_1x2), (Actual ''home.png'', Png black_1x2),
      (Baseline ''cart.png'', Png white_1x2), (Actual ''cart.png'', Png black_1x2),
      (Baseline ''menu.png'', Png white_1x2), (Actual ''menu.png'', Png black_1x2)]"

definition demo_prompt :: "string \<Rightarrow> decision" where
  "demo_prompt snapshotName =
     (if snapshotName = ''home'' then approve else if snapshotName = ''cart'' then reject else skip)"

definition demo_configs :: "TestConfig list" where
  "demo_configs = [demo_config ''login'', demo_config ''login'', demo_config ''login'']"

definition demo_step :: TemplateStep where
  "demo_step = \<lparr>action = ''compare_screenshot'', params = [''{{snapshotName}}'']\<rparr>"

section \<open>Properties\<close>

subsection \<open>Placeholder resolution\<close>

lemma startsWith_iff: "startsWith s p \<longleftrightarrow> (\<exists>r. s = p @ r)"
  unfolding startsWith_def
  by (metis append_eq_conv_conj append_take_drop_id)

lemma endsWith_iff: "endsWith s p \<longleftrightarrow> (\<exists>r. s = r @ p)"
  unfolding endsWith_def
  by (metis append_eq_conv_conj append_take_drop_id diff_add_inverse2 le_add2 length_append)

lemma is_placeholder_iff: "is_placeholder v \<longleftrightarrow> startsWith v ''{{'' \<and> endsWith v ''}}''"
proof
  assume "is_placeholder v"
  then obtain key where "v = ''{{'' @ key @ ''}}''" by (auto simp: is_placeholder_def placeholder_def)
  then show "startsWith v ''{{'' \<and> endsWith v ''}}''"
    by (simp add: startsWith_def endsWith_def)
next
  assume h: "startsWith v ''{{'' \<and> endsWith v ''}}''"
  then obtain r where r: "v = ''{{'' @ r" by (auto simp: startsWith_iff)
  from h obtain q where q: "v = q @ ''}}''" by (auto simp: endsWith_iff)
  from r q have "''{{'' @ r = q @ ''}}''" by simp
  then have "\<exists>k. r = k @ ''}}''"
    by (cases q; cases "tl q") (auto simp: Cons_eq_append_conv)
  with r show "is_placeholder v" by (auto simp: is_placeholder_def placeholder_def)
qed

lemma resolve_env:
  "resolveParam penv (env_placeholder name) ps =
     (case penv name of None \<Rightarrow> Inl (undefined_variable name) | Some x \<Rightarrow> Inr x)"
  by (simp add: resolveParam_def startsWith_def endsWith_def slice_2_m2_def placeholder_def
        env_placeholder_def undefined_variable_def split: option.splits)

lemma resolve_param:
  "\<not> startsWith key ''env.'' \<Longrightarrow>
   resolveParam penv (placeholder key) ps = Inr (case ps key of None \<Rightarrow> [] | Some x \<Rightarrow> x)"
  unfolding resolveParam_def placeholder_def
  by (simp add: Let_def startsWith_def endsWith_def slice_2_m2_def split: option.splits)


lemma resolveParam_Inl:
  assumes a: "resolveParam penv v ps = Inl e"
  shows "\<exists>name. e = undefined_variable name \<and> penv name = None \<and> v = env_placeholder name"
proof -
  from a have p: "is_placeholder v"
    by (auto simp: resolveParam_def is_placeholder_iff split: if_splits)
  then obtain key where v: "v = placeholder key" by (auto simp: is_placeholder_def)
  have k: "startsWith key ''env.''"
  proof (rule ccontr)
    assume "\<not> startsWith key ''env.''"
    from resolve_param [OF this, of penv ps] a v show False by simp
  qed
  then obtain name where key: "key = ''env.'' @ name" by (auto simp: startsWith_iff)
  from v key have v': "v = env_placeholder name" by (simp add: env_placeholder_def)
  from a show ?thesis unfolding v' resolve_env by (auto split: option.splits)
qed

lemma resolveParams_Inl:
  "resolveParams penv vs ps = Inl e \<Longrightarrow>
   \<exists>name. e = undefined_variable name \<and> penv name = None \<and> env_placeholder name \<in> set vs"
proof (induction vs arbitrary: e)
  case Nil
  then show ?case by simp
next
  case (Cons v vs)
  show ?case
  proof (cases "resolveParam penv v ps")
    case (Inl e')
    with Cons.prems have "e' = e" by simp
    with Inl resolveParam_Inl [of penv v ps e] show ?thesis by auto
  next
    case (Inr r)
    with Cons.prems have "resolveParams penv vs ps = Inl e" by (simp split: sum.splits)
    from Cons.IH [OF this] show ?thesis by auto
  qed
qed


lemma not_prefixed: "\<not> startsWith (undefined_variable name) ''Step failed: ''"
  by (simp add: undefined_variable_def startsWith_def)

lemma step_failed_prefix: "startsWith (step_failed act m) ''Step failed: ''"
  by (simp add: step_failed_def startsWith_def)

lemma execute_unresolved:
  "resolveParams (process_env env) (params step) ps = Inl e \<Longrightarrow> execute env step ps st = Threw e st"
  by (simp add: execute_def)

lemma execute_resolved:
  "resolveParams (process_env env) (params step) ps = Inr rp \<Longrightarrow>
   execute env step ps st =
     (case dispatch env (action step) rp st of
        Ok st' \<Rightarrow> Ok st'
      | Threw e st' \<Rightarrow> Threw (step_failed (action step) e) st')"
  by (simp add: execute_def)

lemma resolve_once:
  assumes "\<not> startsWith key ''env.''" and "ps key = Some (env_placeholder name)"
  shows "resolveParam penv (placeholder key) ps = Inr (env_placeholder name)"
  using resolve_param [OF assms(1), of penv ps] assms(2) by simp




subsection \<open>The visual check\<close>

lemma map_of_put: "map_of (put fs p b) = (map_of fs)(p \<mapsto> b)"
  by (simp add: put_def update_conv')

lemma map_of_remove: "map_of (remove fs p) = (map_of fs)(p := None)"
  by (simp add: remove_def delete_conv')

lemma pathExists_map_of: "pathExists fs p \<longleftrightarrow> map_of fs p \<noteq> None"
  by (simp add: pathExists_def)

lemma split_on_plain: "c \<notin> set s \<Longrightarrow> split_on c s = [s]"
  by (induction s) auto

lemma show_nat_plain: "plain (show_nat n)"
proof (induction n rule: show_nat.induct)
  case (1 n)
  have d: "\<And>k. k < 10 \<Longrightarrow> digit_char k \<noteq> CHR ''/''"
  proof -
    fix k :: nat
    assume "k < 10"
    then have "of_char (digit_char k) = 48 + k"
      by (simp add: digit_char_def)
    then show "digit_char k \<noteq> CHR ''/''" by auto
  qed
  show ?case
  proof (cases "n < 10")
    case True
    with d [of n] show ?thesis by (subst show_nat.simps) (simp add: plain_def)
  next
    case False
    with 1 d [of "n mod 10"] show ?thesis by (subst show_nat.simps) (simp add: plain_def)
  qed
qed

lemma plain_diff_name: "plain name \<Longrightarrow> plain (diff_name name t)"
  using show_nat_plain [of t] by (simp add: plain_def diff_name_def)

lemma walk_plain:
  "s \<noteq> [] \<Longrightarrow> s \<noteq> ''.'' \<Longrightarrow> s \<noteq> ''..'' \<Longrightarrow> walk acc [s] = acc @ [s]"
  by simp

lemma png_name: "name @ ''.png'' \<noteq> []" "name @ ''.png'' \<noteq> ''.''" "name @ ''.png'' \<noteq> ''..''"
  by (auto simp: append_eq_Cons_conv)

lemma locate_baseline:
  assumes "plain name"
  shows "locate env [''baseline''] (name @ ''.png'') = Baseline (name @ ''.png'')"
proof -
  from assms have "split_on CHR ''/'' (name @ ''.png'') = [name @ ''.png'']"
    by (intro split_on_plain) (simp add: plain_def)
  then have "walk (screenshots_dir env @ [''baseline'']) (split_on CHR ''/'' (name @ ''.png'')) =
             screenshots_dir env @ [''baseline'', name @ ''.png'']"
    using walk_plain [OF png_name, of "screenshots_dir env @ [''baseline'']" name] by simp
  then show ?thesis by (simp add: locate_def Let_def)
qed

lemma locate_actual:
  assumes "plain name"
  shows "locate env [''actual''] (name @ ''.png'') = Actual (name @ ''.png'')"
proof -
  from assms have "split_on CHR ''/'' (name @ ''.png'') = [name @ ''.png'']"
    by (intro split_on_plain) (simp add: plain_def)
  then have "walk (screenshots_dir env @ [''actual'']) (split_on CHR ''/'' (name @ ''.png'')) =
             screenshots_dir env @ [''actual'', name @ ''.png'']"
    using walk_plain [OF png_name, of "screenshots_dir env @ [''actual'']" name] by simp
  then show ?thesis by (simp add: locate_def Let_def)
qed

lemma locate_diff:
  assumes "plain name"
  shows "locate env [] (diff_name name t) = Shot (diff_name name t)"
proof -
  from plain_diff_name [OF assms] have "split_on CHR ''/'' (diff_name name t) = [diff_name name t]"
    by (intro split_on_plain) (simp add: plain_def)
  moreover have "diff_name name t \<noteq> []" "diff_name name t \<noteq> ''.''" "diff_name name t \<noteq> ''..''"
    by (simp_all add: diff_name_def)
  ultimately have "walk (screenshots_dir env @ []) (split_on CHR ''/'' (diff_name name t)) =
             screenshots_dir env @ [diff_name name t]"
    by simp
  then show ?thesis by (simp add: locate_def Let_def)
qed

text \<open>A name can lead from one directory into the other: the two paths are one file.\<close>

lemma locate_crossing:
  "locate env [''actual''] (''../baseline/x'' @ ''.png'') = Baseline ''x.png''"
  "locate env [''baseline''] (''../baseline/x'' @ ''.png'') = Baseline ''x.png''"
  by (simp_all add: locate_def Let_def)

lemma locate_Shot: "locate env dir f0 = Shot g \<Longrightarrow> g = f0"
  by (simp add: locate_def Let_def split: list.splits if_splits)

lemma writeFile_slot:
  "writeFile env fs (Baseline f) b = Inr (put fs (Baseline f) b)"
  "writeFile env fs (Actual f) b = Inr (put fs (Actual f) b)"
  "writeFile env fs (Shot f) b = Inr (put fs (Shot f) b)"
  by (simp_all add: writeFile_def is_dir_def dir_of_def)

lemma writeFile_cases:
  "writeFile env fs p b = Inr (put fs p b) \<or> writeFile env fs p b = Inl ''ENOENT: no such file or directory''"
  by (simp add: writeFile_def)

lemma dispatch_compare [simp]: "dispatch env ''compare_screenshot'' rp st = compare_screenshot env rp st"
  by (simp add: dispatch_def)

lemma execute_compare:
  assumes "action step = ''compare_screenshot''"
    and "resolveParams (process_env env) (params step) ps = Inr rp"
  shows "execute env step ps st =
     (case compare_screenshot env rp st of
        Ok st' \<Rightarrow> Ok st'
      | Threw e st' \<Rightarrow> Threw (step_failed (action step) e) st')"
  using assms by (simp add: execute_def)

lemma compare_first_run:
  assumes "name \<noteq> []"
    and "\<not> pathExists (files st) (locate env [''baseline''] (name @ ''.png''))"
    and "is_dir env (dir_of env (locate env [''baseline''] (name @ ''.png'')))"
  shows "compare_screenshot env (name # others) st =
     Ok (st\<lparr>trace := trace st @ [Screenshot],
            console := console st @ [BaselineNotFoundSavingNew name],
            files := put (files st) (locate env [''baseline''] (name @ ''.png''))
                       (page_screenshot env (world st))\<rparr>)"
  using assms by (simp add: compare_screenshot_def Let_def writeFile_def)

text \<open>A comparison in which the comparator returns a count, for any snapshot name.\<close>

lemma compare_counted:
  assumes "name \<noteq> []"
    and "map_of (files st) (locate env [''baseline''] (name @ ''.png'')) = Some (Png img1)"
    and "page_screenshot env (world st) = Png img2"
    and "pixelmatch env (data img1) (data img2) (width img1) (height img1) threshold = Inr (n, d)"
  shows "compare_screenshot env (name # others) st =
     (if n > 0 then
        (case writeFile env (files st) (locate env [] (diff_name name (date_now env (world st))))
                (Png \<lparr>width = width img1, height = height img1, data = d\<rparr>) of
           Inl e \<Rightarrow> Threw e (st\<lparr>trace := trace st @ [Screenshot]\<rparr>)
         | Inr fs1 \<Rightarrow>
             (case writeFile env fs1 (locate env [''actual''] (name @ ''.png'')) (Png img2) of
                Inl e \<Rightarrow> Threw e (st\<lparr>trace := trace st @ [Screenshot], files := fs1\<rparr>)
              | Inr fs2 \<Rightarrow>
                  Threw (regression_message n)
                    (st\<lparr>trace := trace st @ [Screenshot], files := fs2,
                        console := console st @ [VisualRegressionDetected n],
                        visualDiff := Some (locate env [] (diff_name name (date_now env (world st))))\<rparr>)))
      else
        Ok (st\<lparr>trace := trace st @ [Screenshot],
               console := console st @ [VisualCheckPassed],
               files := (if pathExists (files st) (locate env [''actual''] (name @ ''.png''))
                         then remove (files st) (locate env [''actual''] (name @ ''.png''))
                         else files st)\<rparr>))"
  using assms
  by (simp add: compare_screenshot_def Let_def pathExists_def readFile_def split: sum.splits)

lemma compare_measured:
  assumes "name \<noteq> []" and "plain name"
    and "map_of (files st) (Baseline (name @ ''.png'')) = Some (Png img1)"
    and "page_screenshot env (world st) = Png img2"
    and "pixelmatch env (data img1) (data img2) (width img1) (height img1) threshold = Inr (n, d)"
  shows "compare_screenshot env (name # others) st =
     (if n > 0 then
        Threw (regression_message n)
          (st\<lparr>trace := trace st @ [Screenshot],
              files := put
                         (put (files st) (Shot (diff_name name (date_now env (world st))))
                            (Png \<lparr>width = width img1, height = height img1, data = d\<rparr>))
                         (Actual (name @ ''.png'')) (Png img2),
              console := console st @ [VisualRegressionDetected n],
              visualDiff := Some (Shot (diff_name name (date_now env (world st))))\<rparr>)
      else
        Ok (st\<lparr>trace := trace st @ [Screenshot],
               console := console st @ [VisualCheckPassed],
               files := (if pathExists (files st) (Actual (name @ ''.png''))
                         then remove (files st) (Actual (name @ ''.png''))
                         else files st)\<rparr>))"
proof -
  from assms(2,3) have b: "map_of (files st) (locate env [''baseline''] (name @ ''.png'')) = Some (Png img1)"
    by (simp add: locate_baseline)
  show ?thesis
    unfolding compare_counted [OF assms(1) b assms(4,5)]
    using assms(2) by (simp add: locate_baseline locate_actual locate_diff writeFile_slot)
qed

lemma compare_thrown:
  assumes "name \<noteq> []"
    and "map_of (files st) (locate env [''baseline''] (name @ ''.png'')) = Some (Png img1)"
    and "page_screenshot env (world st) = Png img2"
    and "pixelmatch env (data img1) (data img2) (width img1) (height img1) threshold = Inl e"
  shows "compare_screenshot env (name # others) st = Threw e (st\<lparr>trace := trace st @ [Screenshot]\<rparr>)"
  using assms by (simp add: compare_screenshot_def Let_def pathExists_def readFile_def)

lemma demo_step_resolves:
  "resolveParams (process_env demo_env) (params demo_step) [''snapshotName'' \<mapsto> ''home''] = Inr (''home'' # [])"
  by (simp add: demo_step_def demo_env_def resolveParam_def startsWith_def endsWith_def slice_2_m2_def)

lemma demo_step_resolves_to:
  "resolveParams (process_env env) (params demo_step) [''snapshotName'' \<mapsto> name] = Inr (name # [])"
  by (simp add: demo_step_def resolveParam_def startsWith_def endsWith_def slice_2_m2_def)

text \<open>
  Claim C7, for a snapshot name whose baseline file lies in a directory that exists. A
  comparison step with such a name that has no baseline returns normally, writes the
  candidate screenshot as the baseline and logs the warning that a new baseline was saved.
  The result does not depend on the comparator: replacing it changes nothing. For a name
  without directory separator the baseline file is \<^verbatim>\<open>screenshots/baseline/<name>.png\<close>,
  and its directory exists.
\<close>

theorem C7_first_run:
  assumes "action step = ''compare_screenshot''"
    and "resolveParams (process_env env) (params step) ps = Inr (name # others)"
    and "name \<noteq> []"
    and "\<not> pathExists (files st) (locate env [''baseline''] (name @ ''.png''))"
    and "is_dir env (dir_of env (locate env [''baseline''] (name @ ''.png'')))"
  shows "execute env step ps st =
           Ok (st\<lparr>trace := trace st @ [Screenshot],
                  console := console st @ [BaselineNotFoundSavingNew name],
                  files := put (files st) (locate env [''baseline''] (name @ ''.png''))
                             (page_screenshot env (world st))\<rparr>) \<and>
         execute (env\<lparr>pixelmatch := pm\<rparr>) step ps st = execute env step ps st \<and>
         readFile (files (state_of (execute env step ps st))) (locate env [''baseline''] (name @ ''.png'')) =
           Inr (page_screenshot env (world st)) \<and>
         (plain name \<longrightarrow>
            locate env [''baseline''] (name @ ''.png'') = Baseline (name @ ''.png'') \<and>
            is_dir env (dir_of env (Baseline (name @ ''.png''))))"
proof -
  let ?B = "locate env [''baseline''] (name @ ''.png'')"
  have a: "execute env step ps st =
           Ok (st\<lparr>trace := trace st @ [Screenshot],
                  console := console st @ [BaselineNotFoundSavingNew name],
                  files := put (files st) ?B (page_screenshot env (world st))\<rparr>)"
    using assms by (simp add: execute_compare compare_first_run)
  have r: "resolveParams (process_env (env\<lparr>pixelmatch := pm\<rparr>)) (params step) ps = Inr (name # others)"
    using assms(2) by simp
  have l: "locate (env\<lparr>pixelmatch := pm\<rparr>) [''baseline''] (name @ ''.png'') = ?B"
    by (simp add: locate_def screenshots_dir_def)
  have "\<And>p. dir_of (env\<lparr>pixelmatch := pm\<rparr>) p = dir_of env p"
    and "\<And>x. is_dir (env\<lparr>pixelmatch := pm\<rparr>) x = is_dir env x"
    by (simp_all add: is_dir_def dir_of_def screenshots_dir_def split: path.splits)
  with assms(5) have d: "is_dir (env\<lparr>pixelmatch := pm\<rparr>) (dir_of (env\<lparr>pixelmatch := pm\<rparr>) ?B)"
    by simp
  have "compare_screenshot (env\<lparr>pixelmatch := pm\<rparr>) (name # others) st =
          Ok (st\<lparr>trace := trace st @ [Screenshot],
                 console := console st @ [BaselineNotFoundSavingNew name],
                 files := put (files st) ?B (page_screenshot env (world st))\<rparr>)"
    using compare_first_run [of name st "env\<lparr>pixelmatch := pm\<rparr>" others] assms(3,4) d
    unfolding l by simp
  with execute_compare [OF assms(1) r, of st]
  have b: "execute (env\<lparr>pixelmatch := pm\<rparr>) step ps st = execute env step ps st"
    by (simp add: a)
  have c: "plain name \<longrightarrow> ?B = Baseline (name @ ''.png'') \<and>
            is_dir env (dir_of env (Baseline (name @ ''.png'')))"
    by (simp add: locate_baseline is_dir_def dir_of_def)
  show ?thesis using a b c by (simp add: readFile_def map_of_put)
qed

theorem C7_first_run_witness:
  "plain ''home'' \<and>
   locate demo_env [''baseline''] (''home'' @ ''.png'') = Baseline ''home.png'' \<and>
   is_dir demo_env (dir_of demo_env (Baseline ''home.png'')) \<and>
   execute demo_env \<lparr>action = ''compare_screenshot'', params = [''{{snapshotName}}'']\<rparr>
     [''snapshotName'' \<mapsto> ''home''] (demo_state []) =
   Ok ((demo_state [])\<lparr>trace := [Screenshot], console := [BaselineNotFoundSavingNew ''home''],
         files := [(Baseline ''home.png'', Png black_1x2)]\<rparr>)"
proof -
  have 1: "action \<lparr>action = ''compare_screenshot'', params = [''{{snapshotName}}'']\<rparr> = ''compare_screenshot''"
    by simp
  have 2: "resolveParams (process_env demo_env)
             (params \<lparr>action = ''compare_screenshot'', params = [''{{snapshotName}}'']\<rparr>)
             [''snapshotName'' \<mapsto> ''home''] = Inr (''home'' # [])"
    by (simp add: demo_env_def resolveParam_def startsWith_def endsWith_def slice_2_m2_def)
  have 3: "''home'' \<noteq> []" by simp
  have p: "plain ''home''" by (simp add: plain_def)
  have l: "locate demo_env [''baseline''] (''home'' @ ''.png'') = Baseline (''home'' @ ''.png'')"
    by (rule locate_baseline [OF p])
  have 4: "\<not> pathExists (files (demo_state [])) (locate demo_env [''baseline''] (''home'' @ ''.png''))"
    by (simp add: pathExists_def demo_state_def)
  have 5: "is_dir demo_env (dir_of demo_env (locate demo_env [''baseline''] (''home'' @ ''.png'')))"
    unfolding l by (simp add: is_dir_def dir_of_def)
  from C7_first_run [OF 1 2 3 4 5] p l show ?thesis
    by (simp add: demo_state_def demo_env_def put_def)
qed

lemma demo_env_facts:
  "page_screenshot demo_env w = Png black_1x2"
  "date_now demo_env w = w"
  "pixelmatch demo_env = pixelmatch_exact"
  "dir_exists demo_env d = False"
  "page_screenshot nested_env w = Png black_1x2"
  "date_now nested_env w = w"
  "pixelmatch nested_env = pixelmatch_exact"
  "dir_exists nested_env d = (d = [''work'', ''app'', ''screenshots'', ''baseline'', ''a''])"
  "cwd demo_env = [''work'', ''app'']"
  "cwd nested_env = [''work'', ''app'']"
  by (simp_all add: demo_env_def nested_env_def)

text \<open>
  Claim C7 at the snapshot name \<^verbatim>\<open>a/b\<close>, in the working directory \<^verbatim>\<open>/work/app\<close>. There
  is no baseline. The step logs the warning, and writing \<^verbatim>\<open>screenshots/baseline/a/b.png\<close>
  throws, because nothing has made the directory \<^verbatim>\<open>screenshots/baseline/a\<close>: the step
  fails, and no file has been written.
\<close>

theorem C7_separator_counterexample:
  "locate demo_env [''baseline''] (''a/b'' @ ''.png'') =
     Other [''work'', ''app'', ''screenshots'', ''baseline'', ''a'', ''b.png''] \<and>
   \<not> pathExists (files (demo_state []))
       (Other [''work'', ''app'', ''screenshots'', ''baseline'', ''a'', ''b.png'']) \<and>
   execute demo_env demo_step [''snapshotName'' \<mapsto> ''a/b''] (demo_state []) =
     Threw (step_failed ''compare_screenshot'' ''ENOENT: no such file or directory'')
       ((demo_state [])\<lparr>trace := [Screenshot], console := [BaselineNotFoundSavingNew ''a/b'']\<rparr>) \<and>
   files ((demo_state [])\<lparr>trace := [Screenshot], console := [BaselineNotFoundSavingNew ''a/b'']\<rparr>) = []"
proof -
  have 1: "action demo_step = ''compare_screenshot''" by (simp add: demo_step_def)
  have l: "locate demo_env [''baseline''] ''a/b.png'' =
             Other [''work'', ''app'', ''screenshots'', ''baseline'', ''a'', ''b.png'']"
    by (simp add: locate_def screenshots_dir_def demo_env_facts)
  have c: "compare_screenshot demo_env [''a/b''] (demo_state []) =
           Threw ''ENOENT: no such file or directory''
             ((demo_state [])\<lparr>trace := [Screenshot], console := [BaselineNotFoundSavingNew ''a/b'']\<rparr>)"
    by (simp add: compare_screenshot_def Let_def l pathExists_def writeFile_def is_dir_def dir_of_def
          screenshots_dir_def demo_env_facts demo_state_def)
  show ?thesis
    unfolding execute_compare [OF 1 demo_step_resolves_to] c
    by (simp add: l pathExists_def demo_state_def demo_step_def)
qed

text \<open>
  Claim C6. Baseline and candidate decode to rasters of equal size, and the comparator,
  called with the threshold 0.1, counts \<open>n\<close> differing pixels. The step throws exactly
  when \<open>n > 0\<close>, whatever the snapshot name: with the regression message for \<open>n\<close>, or with
  the message of the write of the diff or of the actual image when that write throws. For a
  snapshot name without directory separator the writes do not throw: the step fails with
  the regression message and the regression is logged. With \<open>n = 0\<close> the step returns and
  the visual check has passed.
\<close>

theorem C6_zero_tolerance:
  assumes "action step = ''compare_screenshot''"
    and "resolveParams (process_env env) (params step) ps = Inr (name # others)"
    and "name \<noteq> []"
    and "map_of (files st) (locate env [''baseline''] (name @ ''.png'')) = Some (Png img1)"
    and "page_screenshot env (world st) = Png img2"
    and "width img2 = width img1" and "height img2 = height img1"
    and "pixelmatch env (data img1) (data img2) (width img1) (height img1) (1 / 10) = Inr (n, d)"
  shows "((\<exists>e st'. execute env step ps st = Threw e st') \<longleftrightarrow> n > 0) \<and>
         (n > 0 \<longrightarrow>
            (\<exists>m st'. execute env step ps st = Threw (step_failed (action step) m) st' \<and>
                     (m = regression_message n \<or> m = ''ENOENT: no such file or directory''))) \<and>
         (n > 0 \<and> plain name \<longrightarrow>
            (\<exists>st'. execute env step ps st =
                     Threw (step_failed (action step) (regression_message n)) st' \<and>
                   console st' = console st @ [VisualRegressionDetected n])) \<and>
         (n = 0 \<longrightarrow>
            (\<exists>st'. execute env step ps st = Ok st' \<and>
                   console st' = console st @ [VisualCheckPassed]))"
proof -
  from assms(8) have pm: "pixelmatch env (data img1) (data img2) (width img1) (height img1) threshold = Inr (n, d)"
    by (simp add: threshold_def)
  note c = compare_counted [OF assms(3,4,5) pm, of others]
  let ?diff = "locate env [] (diff_name name (date_now env (world st)))"
  let ?png = "Png \<lparr>width = width img1, height = height img1, data = d\<rparr>"
  have zero: "n = 0 \<Longrightarrow> \<exists>st'. execute env step ps st = Ok st' \<and> console st' = console st @ [VisualCheckPassed]"
    unfolding execute_compare [OF assms(1,2)] c by simp
  have pos: "\<exists>m st'. execute env step ps st = Threw (step_failed (action step) m) st' \<and>
                     (m = regression_message n \<or> m = ''ENOENT: no such file or directory'')"
    if n: "n > 0"
  proof -
    from writeFile_cases [of env "files st" ?diff ?png] show ?thesis
    proof
      assume w1: "writeFile env (files st) ?diff ?png = Inr (put (files st) ?diff ?png)"
      from writeFile_cases [of env "put (files st) ?diff ?png" "locate env [''actual''] (name @ ''.png'')" "Png img2"]
      show ?thesis
      proof
        assume "writeFile env (put (files st) ?diff ?png) (locate env [''actual''] (name @ ''.png'')) (Png img2) =
                Inr (put (put (files st) ?diff ?png) (locate env [''actual''] (name @ ''.png'')) (Png img2))"
        with w1 n show ?thesis unfolding execute_compare [OF assms(1,2)] c by auto
      next
        assume "writeFile env (put (files st) ?diff ?png) (locate env [''actual''] (name @ ''.png'')) (Png img2) =
                Inl ''ENOENT: no such file or directory''"
        with w1 n show ?thesis unfolding execute_compare [OF assms(1,2)] c by auto
      qed
    next
      assume "writeFile env (files st) ?diff ?png = Inl ''ENOENT: no such file or directory''"
      with n show ?thesis unfolding execute_compare [OF assms(1,2)] c by auto
    qed
  qed
  have named: "\<exists>st'. execute env step ps st =
                     Threw (step_failed (action step) (regression_message n)) st' \<and>
                   console st' = console st @ [VisualRegressionDetected n]"
    if "n > 0" and "plain name"
    using that unfolding execute_compare [OF assms(1,2)] c
    by (simp add: locate_actual locate_diff writeFile_slot)
  from zero pos have "(\<exists>e st'. execute env step ps st = Threw e st') \<longleftrightarrow> n > 0"
    by (cases "n = 0") auto
  with zero pos named show ?thesis by blast
qed

theorem C6_zero_tolerance_witness:
  "action demo_step = ''compare_screenshot'' \<and>
   plain ''home'' \<and>
   pixelmatch demo_env (data black_1x2) (data black_1x2) (width black_1x2) (height black_1x2) (1 / 10) =
     Inr (0, [0, 0, 0, 0, 0, 0, 0, 0]) \<and>
   (\<exists>st'. execute demo_env demo_step [''snapshotName'' \<mapsto> ''home'']
            (demo_state [(Baseline ''home.png'', Png black_1x2)]) = Ok st' \<and>
          console st' = [VisualCheckPassed]) \<and>
   pixelmatch demo_env (data white_1x2) (data black_1x2) (width white_1x2) (height white_1x2) (1 / 10) =
     Inr (2, [0, 0, 0, 0, 0, 0, 0, 0]) \<and>
   (\<exists>st'. execute demo_env demo_step [''snapshotName'' \<mapsto> ''home'']
            (demo_state [(Baseline ''home.png'', Png white_1x2)]) =
            Threw (step_failed ''compare_screenshot'' (regression_message 2)) st' \<and>
          console st' = [VisualRegressionDetected 2])"
proof -
  let ?st = "demo_state [(Baseline ''home.png'', Png black_1x2)]"
  let ?sw = "demo_state [(Baseline ''home.png'', Png white_1x2)]"
  have 1: "action demo_step = ''compare_screenshot''" by (simp add: demo_step_def)
  have 3: "''home'' \<noteq> []" by simp
  have p: "plain ''home''" by (simp add: plain_def)
  have 4: "map_of (files ?st) (locate demo_env [''baseline''] (''home'' @ ''.png'')) = Some (Png black_1x2)"
    by (simp add: demo_state_def locate_baseline [OF p, simplified])
  have b4: "map_of (files ?sw) (locate demo_env [''baseline''] (''home'' @ ''.png'')) = Some (Png white_1x2)"
    by (simp add: demo_state_def locate_baseline [OF p, simplified])
  have 5: "page_screenshot demo_env (world ?st) = Png black_1x2" by (simp add: demo_env_facts)
  have b5: "page_screenshot demo_env (world ?sw) = Png black_1x2" by (simp add: demo_env_facts)
  have 8: "pixelmatch demo_env (data black_1x2) (data black_1x2) (width black_1x2) (height black_1x2) (1 / 10) = Inr (0, [0, 0, 0, 0, 0, 0, 0, 0])"
    by (simp add: demo_env_facts pixelmatch_exact_def black_1x2_def)
  have b8: "pixelmatch demo_env (data white_1x2) (data black_1x2) (width white_1x2) (height white_1x2) (1 / 10) = Inr (2, [0, 0, 0, 0, 0, 0, 0, 0])"
    by (simp add: demo_env_facts pixelmatch_exact_def black_1x2_def white_1x2_def)
  have d: "width black_1x2 = width white_1x2" "height black_1x2 = height white_1x2"
    by (simp_all add: black_1x2_def white_1x2_def)
  from C6_zero_tolerance [OF 1 demo_step_resolves 3 4 5 refl refl 8]
  have a: "\<exists>st'. execute demo_env demo_step [''snapshotName'' \<mapsto> ''home''] ?st = Ok st' \<and>
             console st' = [VisualCheckPassed]"
    by (simp add: demo_state_def)
  from C6_zero_tolerance [OF 1 demo_step_resolves 3 b4 b5 d b8] p 1
  have b: "\<exists>st'. execute demo_env demo_step [''snapshotName'' \<mapsto> ''home''] ?sw =
             Threw (step_failed ''compare_screenshot'' (regression_message 2)) st' \<and>
             console st' = [VisualRegressionDetected 2]"
    by (simp add: demo_state_def)
  from 1 p 8 b8 a b show ?thesis by simp
qed

text \<open>
  Claim C8, for a snapshot name without directory separator and a comparison against an
  existing baseline in which the comparator counts \<open>n\<close> differing pixels. With \<open>n > 0\<close> the
  step throws after the candidate has been written as the actual image of the snapshot and
  the diff image has been written; with \<open>n = 0\<close> the step returns and there is no actual
  image of the snapshot. So afterwards the snapshot is pending exactly when the comparison
  was a mismatch; the actual images of other snapshots and all baselines are as before.
\<close>

theorem C8_pending_set:
  assumes "action step = ''compare_screenshot''"
    and "resolveParams (process_env env) (params step) ps = Inr (name # others)"
    and "name \<noteq> []" and "plain name"
    and "map_of (files st) (Baseline (name @ ''.png'')) = Some (Png img1)"
    and "page_screenshot env (world st) = Png img2"
    and "pixelmatch env (data img1) (data img2) (width img1) (height img1) threshold = Inr (n, d)"
  shows "(pathExists (files (state_of (execute env step ps st))) (Actual (name @ ''.png'')) \<longleftrightarrow> n > 0) \<and>
         (n > 0 \<longrightarrow>
            execute env step ps st =
              Threw (step_failed (action step) (regression_message n)) (state_of (execute env step ps st)) \<and>
            map_of (files (state_of (execute env step ps st))) (Actual (name @ ''.png'')) = Some (Png img2) \<and>
            map_of (files (state_of (execute env step ps st)))
                (Shot (diff_name name (date_now env (world st)))) =
              Some (Png \<lparr>width = width img1, height = height img1, data = d\<rparr>)) \<and>
         (n = 0 \<longrightarrow>
            execute env step ps st = Ok (state_of (execute env step ps st)) \<and>
            map_of (files (state_of (execute env step ps st))) (Actual (name @ ''.png'')) = None) \<and>
         (\<forall>f. f \<noteq> name @ ''.png'' \<longrightarrow>
            map_of (files (state_of (execute env step ps st))) (Actual f) = map_of (files st) (Actual f)) \<and>
         (\<forall>f. map_of (files (state_of (execute env step ps st))) (Baseline f) = map_of (files st) (Baseline f))"
  unfolding execute_compare [OF assms(1,2)] compare_measured [OF assms(3,4,5,6,7)]
  by (simp add: pathExists_def map_of_put map_of_remove)

theorem C8_pending_set_witness:
  "action demo_step = ''compare_screenshot'' \<and>
   plain ''home'' \<and>
   map_of (files (demo_state [(Baseline ''home.png'', Png white_1x2), (Actual ''cart.png'', Png white_1x2)]))
     (Baseline (''home'' @ ''.png'')) = Some (Png white_1x2) \<and>
   pixelmatch demo_env (data white_1x2) (data black_1x2) (width white_1x2) (height white_1x2) threshold =
     Inr (2, [0, 0, 0, 0, 0, 0, 0, 0]) \<and>
   pathExists (files (state_of (execute demo_env demo_step [''snapshotName'' \<mapsto> ''home'']
       (demo_state [(Baseline ''home.png'', Png white_1x2), (Actual ''cart.png'', Png white_1x2)]))))
     (Actual (''home'' @ ''.png'')) \<and>
   ''cart.png'' \<noteq> ''home'' @ ''.png'' \<and>
   map_of (files (state_of (execute demo_env demo_step [''snapshotName'' \<mapsto> ''home'']
       (demo_state [(Baseline ''home.png'', Png white_1x2), (Actual ''cart.png'', Png white_1x2)]))))
     (Actual ''cart.png'') = Some (Png white_1x2) \<and>
   pixelmatch demo_env (data black_1x2) (data black_1x2) (width black_1x2) (height black_1x2) threshold =
     Inr (0, [0, 0, 0, 0, 0, 0, 0, 0]) \<and>
   \<not> pathExists (files (state_of (execute demo_env demo_step [''snapshotName'' \<mapsto> ''home'']
       (demo_state [(Baseline ''home.png'', Png black_1x2), (Actual ''home.png'', Png white_1x2)]))))
     (Actual (''home'' @ ''.png''))"
proof -
  let ?st = "demo_state [(Baseline ''home.png'', Png white_1x2), (Actual ''cart.png'', Png white_1x2)]"
  let ?sm = "demo_state [(Baseline ''home.png'', Png black_1x2), (Actual ''home.png'', Png white_1x2)]"
  have 1: "action demo_step = ''compare_screenshot''" by (simp add: demo_step_def)
  have 3: "''home'' \<noteq> []" by simp
  have p: "plain ''home''" by (simp add: plain_def)
  have 4: "map_of (files ?st) (Baseline (''home'' @ ''.png'')) = Some (Png white_1x2)"
    by (simp add: demo_state_def)
  have b4: "map_of (files ?sm) (Baseline (''home'' @ ''.png'')) = Some (Png black_1x2)"
    by (simp add: demo_state_def)
  have 5: "page_screenshot demo_env (world ?st) = Png black_1x2" by (simp add: demo_env_facts)
  have b5: "page_screenshot demo_env (world ?sm) = Png black_1x2" by (simp add: demo_env_facts)
  have 6: "pixelmatch demo_env (data white_1x2) (data black_1x2) (width white_1x2) (height white_1x2) threshold =
     Inr (2, [0, 0, 0, 0, 0, 0, 0, 0])"
    by (simp add: demo_env_facts pixelmatch_exact_def black_1x2_def white_1x2_def)
  have b6: "pixelmatch demo_env (data black_1x2) (data black_1x2) (width black_1x2) (height black_1x2) threshold =
     Inr (0, [0, 0, 0, 0, 0, 0, 0, 0])"
    by (simp add: demo_env_facts pixelmatch_exact_def black_1x2_def)
  have 7: "''cart.png'' \<noteq> ''home'' @ ''.png''" by simp
  have 8: "map_of (files ?st) (Actual ''cart.png'') = Some (Png white_1x2)"
    by (simp add: demo_state_def)
  from C8_pending_set [OF 1 demo_step_resolves 3 p 4 5 6] have a:
    "pathExists (files (state_of (execute demo_env demo_step [''snapshotName'' \<mapsto> ''home''] ?st)))
       (Actual (''home'' @ ''.png''))"
    "map_of (files (state_of (execute demo_env demo_step [''snapshotName'' \<mapsto> ''home''] ?st)))
       (Actual ''cart.png'') = map_of (files ?st) (Actual ''cart.png'')"
    using 7 by simp_all
  from C8_pending_set [OF 1 demo_step_resolves 3 p b4 b5 b6] have b:
    "\<not> pathExists (files (state_of (execute demo_env demo_step [''snapshotName'' \<mapsto> ''home''] ?sm)))
       (Actual (''home'' @ ''.png''))"
    by simp
  from a b 1 p 4 6 b6 7 8 show ?thesis by simp
qed

text \<open>
  Claim C8 at two inputs. First, snapshot \<^verbatim>\<open>home\<close> with a baseline of 1 by 1 pixel, a
  candidate of 1 by 2, and an actual image left by an earlier mismatch: the comparator
  throws, the step fails without a count, and the snapshot is still pending. Second,
  snapshot \<^verbatim>\<open>a/b\<close> with its baseline in \<^verbatim>\<open>screenshots/baseline/a\<close>: the comparator counts 2
  differing pixels, writing the diff to \<^verbatim>\<open>screenshots/diff-a/b-0.png\<close> throws, and the step
  fails with neither diff nor actual image written, so the snapshot is not pending.
\<close>

theorem C8_stale_or_unwritten_counterexample:
  "execute demo_env demo_step [''snapshotName'' \<mapsto> ''home'']
     (demo_state [(Baseline ''home.png'', Png white_1x1), (Actual ''home.png'', Png black_1x2)]) =
   Threw (step_failed ''compare_screenshot'' ''Image sizes do not match.'')
     ((demo_state [(Baseline ''home.png'', Png white_1x1), (Actual ''home.png'', Png black_1x2)])
        \<lparr>trace := [Screenshot]\<rparr>) \<and>
   pathExists
     (files ((demo_state [(Baseline ''home.png'', Png white_1x1), (Actual ''home.png'', Png black_1x2)])
        \<lparr>trace := [Screenshot]\<rparr>))
     (Actual ''home.png'') \<and>
   locate nested_env [''baseline''] (''a/b'' @ ''.png'') =
     Other [''work'', ''app'', ''screenshots'', ''baseline'', ''a'', ''b.png''] \<and>
   locate nested_env [''actual''] (''a/b'' @ ''.png'') =
     Other [''work'', ''app'', ''screenshots'', ''actual'', ''a'', ''b.png''] \<and>
   pixelmatch nested_env (data white_1x2) (data black_1x2) (width white_1x2) (height white_1x2) threshold =
     Inr (2, [0, 0, 0, 0, 0, 0, 0, 0]) \<and>
   execute nested_env demo_step [''snapshotName'' \<mapsto> ''a/b'']
     (demo_state [(Other [''work'', ''app'', ''screenshots'', ''baseline'', ''a'', ''b.png''], Png white_1x2)]) =
   Threw (step_failed ''compare_screenshot'' ''ENOENT: no such file or directory'')
     ((demo_state [(Other [''work'', ''app'', ''screenshots'', ''baseline'', ''a'', ''b.png''], Png white_1x2)])
        \<lparr>trace := [Screenshot]\<rparr>) \<and>
   \<not> pathExists
     (files ((demo_state [(Other [''work'', ''app'', ''screenshots'', ''baseline'', ''a'', ''b.png''], Png white_1x2)])
        \<lparr>trace := [Screenshot]\<rparr>))
     (Other [''work'', ''app'', ''screenshots'', ''actual'', ''a'', ''b.png''])"
proof -
  let ?s1 = "demo_state [(Baseline ''home.png'', Png white_1x1), (Actual ''home.png'', Png black_1x2)]"
  let ?s2 = "demo_state [(Other [''work'', ''app'', ''screenshots'', ''baseline'', ''a'', ''b.png''], Png white_1x2)]"
  have 1: "action demo_step = ''compare_screenshot''" by (simp add: demo_step_def)
  have p: "plain ''home''" by (simp add: plain_def)
  have b1: "map_of (files ?s1) (locate demo_env [''baseline''] (''home'' @ ''.png'')) = Some (Png white_1x1)"
    by (simp add: demo_state_def locate_baseline [OF p, simplified])
  have t1: "pixelmatch demo_env (data white_1x1) (data black_1x2) (width white_1x1) (height white_1x1) threshold =
            Inl ''Image sizes do not match.''"
    by (simp add: demo_env_facts pixelmatch_exact_def white_1x1_def black_1x2_def)
  have c1: "compare_screenshot demo_env [''home''] ?s1 =
            Threw ''Image sizes do not match.'' (?s1\<lparr>trace := trace ?s1 @ [Screenshot]\<rparr>)"
    by (rule compare_thrown [OF _ b1 _ t1]) (simp_all add: demo_env_facts)
  have e1: "execute demo_env demo_step [''snapshotName'' \<mapsto> ''home''] ?s1 =
            Threw (step_failed ''compare_screenshot'' ''Image sizes do not match.'') (?s1\<lparr>trace := [Screenshot]\<rparr>)"
    unfolding execute_compare [OF 1 demo_step_resolves_to] c1
    by (simp add: demo_step_def demo_state_def)
  have a1: "pathExists (files (?s1\<lparr>trace := [Screenshot]\<rparr>)) (Actual ''home.png'')"
    by (simp add: pathExists_def demo_state_def)
  have l: "locate nested_env [''baseline''] ''a/b.png'' =
             Other [''work'', ''app'', ''screenshots'', ''baseline'', ''a'', ''b.png'']"
          "locate nested_env [''actual''] ''a/b.png'' =
             Other [''work'', ''app'', ''screenshots'', ''actual'', ''a'', ''b.png'']"
    by (simp_all add: locate_def screenshots_dir_def demo_env_facts)
  have dn: "diff_name ''a/b'' 0 = ''diff-a/b-0.png''"
    by code_simp
  have ld: "locate nested_env [] (diff_name ''a/b'' 0) =
              Other [''work'', ''app'', ''screenshots'', ''diff-a'', ''b-0.png'']"
    unfolding dn by (simp add: locate_def screenshots_dir_def demo_env_facts)
  have b2: "map_of (files ?s2) (locate nested_env [''baseline''] (''a/b'' @ ''.png'')) = Some (Png white_1x2)"
    by (simp add: demo_state_def l)
  have t2: "pixelmatch nested_env (data white_1x2) (data black_1x2) (width white_1x2) (height white_1x2) threshold =
            Inr (2, [0, 0, 0, 0, 0, 0, 0, 0])"
    by (simp add: demo_env_facts pixelmatch_exact_def black_1x2_def white_1x2_def)
  have s2: "page_screenshot nested_env (world ?s2) = Png black_1x2" by (simp add: demo_env_facts)
  have w0: "\<And>fs. world (demo_state fs) = 0" by (simp add: demo_state_def)
  have c2: "compare_screenshot nested_env [''a/b''] ?s2 =
            Threw ''ENOENT: no such file or directory'' (?s2\<lparr>trace := trace ?s2 @ [Screenshot]\<rparr>)"
  proof -
    have "''a/b'' \<noteq> []" by simp
    from compare_counted [OF this b2 s2 t2, of "[]"] show ?thesis
      by (simp add: demo_env_facts w0 ld writeFile_def is_dir_def dir_of_def screenshots_dir_def)
  qed
  have e2: "execute nested_env demo_step [''snapshotName'' \<mapsto> ''a/b''] ?s2 =
            Threw (step_failed ''compare_screenshot'' ''ENOENT: no such file or directory'') (?s2\<lparr>trace := [Screenshot]\<rparr>)"
    unfolding execute_compare [OF 1 demo_step_resolves_to] c2
    by (simp add: demo_step_def demo_state_def)
  have a2: "\<not> pathExists (files (?s2\<lparr>trace := [Screenshot]\<rparr>))
              (Other [''work'', ''app'', ''screenshots'', ''actual'', ''a'', ''b.png''])"
    by (simp add: pathExists_def demo_state_def)
  from e1 a1 l t2 e2 a2 show ?thesis by simp
qed

lemma enrich_dimension_guard:
  assumes "visualDiff st = None" and "rowParams ''snapshotName'' = Some name" and "name \<noteq> []"
    and "map_of (files st) (locate env [''baseline''] (name @ ''.png'')) = Some (Png img1)"
    and "map_of (files st) screenshotPath = Some (Png img2)"
    and "width img2 \<noteq> width img1 \<or> height img2 \<noteq> height img1"
  shows "enrich env rowParams screenshotPath st = ((None, None), st)"
  using assms by (auto simp: enrich_def Let_def pathExists_def readFile_def)

text \<open>
  Claim C1, at an input that refutes it for the comparison step. The baseline is 2 by 1 and
  the candidate 1 by 2. The step has no test on the dimensions: it hands both byte arrays to
  the comparator with the baseline's width and height, and reports a visual regression of 2
  pixels, writing the diff and the actual image. (The enrichment of a failure does test the
  dimensions, see \<open>enrich_dimension_guard\<close>.)
\<close>

theorem C1_primary_compares_despite_dimensions:
  "width black_1x2 \<noteq> width white_2x1 \<and>
   execute demo_env demo_step [''snapshotName'' \<mapsto> ''home'']
     (demo_state [(Baseline ''home.png'', Png white_2x1)]) =
   Threw (step_failed ''compare_screenshot'' (regression_message 2))
     ((demo_state [(Baseline ''home.png'', Png white_2x1)])
        \<lparr>trace := [Screenshot],
         files := [(Baseline ''home.png'', Png white_2x1),
                   (Shot (diff_name ''home'' 0), Png \<lparr>width = 2, height = 1, data = [0, 0, 0, 0, 0, 0, 0, 0]\<rparr>),
                   (Actual ''home.png'', Png black_1x2)],
         console := [VisualRegressionDetected 2],
         visualDiff := Some (Shot (diff_name ''home'' 0))\<rparr>)"
proof -
  let ?st = "demo_state [(Baseline ''home.png'', Png white_2x1)]"
  have 1: "action demo_step = ''compare_screenshot''" by (simp add: demo_step_def)
  have 3: "''home'' \<noteq> []" by simp
  have p: "plain ''home''" by (simp add: plain_def)
  have 4: "map_of (files ?st) (Baseline (''home'' @ ''.png'')) = Some (Png white_2x1)"
    by (simp add: demo_state_def)
  have 5: "page_screenshot demo_env (world ?st) = Png black_1x2" by (simp add: demo_env_def)
  have 6: "pixelmatch demo_env (data white_2x1) (data black_1x2) (width white_2x1) (height white_2x1) threshold =
     Inr (2, [0, 0, 0, 0, 0, 0, 0, 0])"
    by (simp add: demo_env_def pixelmatch_exact_def black_1x2_def white_2x1_def)
  have w: "width black_1x2 \<noteq> width white_2x1" by (simp add: black_1x2_def white_2x1_def)
  have "execute demo_env demo_step [''snapshotName'' \<mapsto> ''home''] ?st =
        Threw (step_failed (action demo_step) (regression_message 2))
          (?st\<lparr>trace := trace ?st @ [Screenshot],
              files := put
                         (put (files ?st) (Shot (diff_name ''home'' (date_now demo_env (world ?st))))
                            (Png \<lparr>width = width white_2x1, height = height white_2x1, data = [0, 0, 0, 0, 0, 0, 0, 0]\<rparr>))
                         (Actual (''home'' @ ''.png'')) (Png black_1x2),
              console := console ?st @ [VisualRegressionDetected 2],
              visualDiff := Some (Shot (diff_name ''home'' (date_now demo_env (world ?st))))\<rparr>)"
    unfolding execute_compare [OF 1 demo_step_resolves] compare_measured [OF 3 p 4 5 6] by simp
  then show ?thesis using w
    by (simp add: demo_state_def demo_env_def demo_step_def put_def white_2x1_def)
qed

subsection \<open>What running steps leaves alone\<close>

lemma do_page_frame:
  "results (state_of (do_page env a st)) = results st \<and>
   sessions (state_of (do_page env a st)) = sessions st"
  by (simp add: do_page_def Let_def split: prod.splits option.splits)

lemma do_fetch_frame:
  "results (snd (do_fetch env u m b st)) = results st \<and>
   sessions (snd (do_fetch env u m b st)) = sessions st"
  by (simp add: do_fetch_def split: prod.splits)

lemma perf_loop_frame:
  "results (snd (perf_loop env u m n lat st)) = results st \<and>
   sessions (snd (perf_loop env u m n lat st)) = sessions st"
proof (induction n arbitrary: lat st)
  case 0
  show ?case by simp
next
  case (Suc n)
  show ?case
  proof (cases "do_fetch env u m None st")
    case (Pair r st')
    with do_fetch_frame [of env u m None st]
    have f: "results st' = results st \<and> sessions st' = sessions st" by simp
    show ?thesis
    proof (cases r)
      case (Inl e)
      with Pair f show ?thesis by (simp add: Let_def)
    next
      case (Inr x)
      with Pair f Suc.IH show ?thesis by (simp add: Let_def)
    qed
  qed
qed

lemma compare_screenshot_frame:
  "results (state_of (compare_screenshot env rp st)) = results st \<and>
   sessions (state_of (compare_screenshot env rp st)) = sessions st"
  by (simp add: compare_screenshot_def Let_def split: sum.splits prod.splits)

lemma request_frame:
  "results (state_of (request env rp st)) = results st \<and>
   sessions (state_of (request env rp st)) = sessions st"
proof -
  obtain u m b where "request env rp st = (case do_fetch env u m b st of
           (Inl e, st') \<Rightarrow> Threw e st'
         | (Inr r, st') \<Rightarrow> Ok (st'\<lparr>lastResponse := Some r\<rparr>))"
    by (simp add: request_def Let_def)
  moreover obtain r st' where "do_fetch env u m b st = (r, st')" by (cases "do_fetch env u m b st")
  ultimately show ?thesis using do_fetch_frame [of env u m b st] by (cases r) auto
qed

lemma measure_frame:
  "results (state_of (measure_performance env rp st)) = results st \<and>
   sessions (state_of (measure_performance env rp st)) = sessions st"
proof -
  obtain u m n where "measure_performance env rp st = (case perf_loop env u m n [] st of
           (Inl e, st') \<Rightarrow> Threw e st'
         | (Inr latencies, st') \<Rightarrow> Ok (st'\<lparr>perfResults := Some latencies\<rparr>))"
    by (simp add: measure_performance_def Let_def)
  moreover obtain r st' where "perf_loop env u m n [] st = (r, st')" by (cases "perf_loop env u m n [] st")
  ultimately show ?thesis using perf_loop_frame [of env u m n "[]" st] by (cases r) auto
qed

lemma expect_frame:
  "results (state_of (expect_status rp st)) = results st \<and>
   sessions (state_of (expect_status rp st)) = sessions st \<and>
   results (state_of (expect_response_body rp st)) = results st \<and>
   sessions (state_of (expect_response_body rp st)) = sessions st"
  by (simp add: expect_status_def expect_response_body_def Let_def split: option.splits)

lemma custom_action_frame:
  "results (state_of (custom_action env act rp st)) = results st \<and>
   sessions (state_of (custom_action env act rp st)) = sessions st"
  by (simp add: custom_action_def Let_def split: prod.splits option.splits)

lemma dispatch_frame:
  "results (state_of (dispatch env act rp st)) = results st \<and>
   sessions (state_of (dispatch env act rp st)) = sessions st"
  unfolding dispatch_def
  by (simp add: do_page_frame compare_screenshot_frame request_frame measure_frame
        expect_frame custom_action_frame)

lemma execute_frame:
  "results (state_of (execute env step ps st)) = results st \<and>
   sessions (state_of (execute env step ps st)) = sessions st"
proof (cases "resolveParams (process_env env) (params step) ps")
  case (Inl e)
  then show ?thesis by (simp add: execute_def)
next
  case (Inr rp)
  with dispatch_frame [of env "action step" rp st] show ?thesis
    by (cases "dispatch env (action step) rp st") (auto simp: execute_def)
qed

lemma run_steps_frame:
  "results (state_of (run_steps env ss ps st)) = results st \<and>
   sessions (state_of (run_steps env ss ps st)) = sessions st"
proof (induction ss arbitrary: st)
  case Nil
  show ?case by simp
next
  case (Cons s ss)
  show ?case
    using execute_frame [of env s ps st] Cons.IH
    by (cases "execute env s ps st") auto
qed

lemma run_templates_frame:
  "results (state_of (run_templates env ts ps st)) = results st \<and>
   sessions (state_of (run_templates env ts ps st)) = sessions st"
proof (induction ts arbitrary: st)
  case Nil
  show ?case by simp
next
  case (Cons t ts)
  show ?case
  proof (cases "case t of None \<Rightarrow> None | Some i \<Rightarrow> loadTemplate env i")
    case None
    then show ?thesis by simp
  next
    case (Some tmpl)
    show ?thesis
      using run_steps_frame [of env "steps tmpl" ps st] Cons.IH Some
      by (cases "run_steps env (steps tmpl) ps st") auto
  qed
qed

lemma attempt_frame:
  "results (state_of (attempt env config ps st)) = results st \<and>
   sessions (state_of (attempt env config ps st)) = sessions st @ [Opened (contextOptions env config)]"
  using run_templates_frame [of env "templatesToRun config" ps "open_session env (contextOptions env config) st"]
  by (simp add: attempt_def open_session_def)

lemma enrich_frame:
  "results (snd (enrich env ps p st)) = results st \<and> sessions (snd (enrich env ps p st)) = sessions st"
  by (simp add: enrich_def Let_def split: sum.splits prod.splits)

lemma enrich_writes:
  "files (snd (enrich env ps p st)) = files st \<or>
   (\<exists>n t d. files (snd (enrich env ps p st)) = put (files st) (locate env [] (diff_name n t)) d)"
  unfolding enrich_def Let_def writeFile_def
  by (simp split: sum.splits prod.splits) blast

lemma diff_name_prefix: "startsWith (diff_name n t) ''diff-''"
  by (simp add: diff_name_def startsWith_def)

lemma enrich_files:
  assumes "snd (enrich env ps p st) = st'" and "map_of (files st) (Shot f) = Some b"
    and "\<not> startsWith f ''diff-''"
  shows "map_of (files st') (Shot f) = Some b"
proof -
  from enrich_writes [of env ps p st] assms(1)
  consider "files st' = files st"
    | n t d where "files st' = put (files st) (locate env [] (diff_name n t)) d"
    by auto
  then show ?thesis
  proof cases
    case 1
    with assms(2) show ?thesis by simp
  next
    case 2
    from assms(3) diff_name_prefix [of n t] have "f \<noteq> diff_name n t" by auto
    with locate_Shot [of env "[]" "diff_name n t" f] have "locate env [] (diff_name n t) \<noteq> Shot f" by auto
    with 2 assms(2) show ?thesis by (simp add: map_of_put)
  qed
qed

lemma record_failure_results:
  "\<exists>r. results (record_failure env config ps tid tname t0 e st) = results st @ [r] \<and>
       r_status r = FAIL \<and> r_error r = Some e \<and> r_id r = tid \<and> r_name r = tname \<and>
       r_screenshot r = Some (Shot (fail_name tid (date_now env (world st)))) \<and>
       map_of (files (record_failure env config ps tid tname t0 e st))
         (Shot (fail_name tid (date_now env (world st)))) = Some (page_screenshot env (world st)) \<and>
       sessions (record_failure env config ps tid tname t0 e st) = sessions st"
proof -
  let ?p = "Shot (fail_name tid (date_now env (world st)))"
  let ?st1 = "st\<lparr>files := put (files st) ?p (page_screenshot env (world st)),
                   trace := trace st @ [Screenshot]\<rparr>"
  obtain v b st2 where en: "enrich env ps ?p ?st1 = ((v, b), st2)"
    by (metis surj_pair)
  have fr: "results st2 = results st" "sessions st2 = sessions st"
    using enrich_frame [of env ps ?p ?st1] en by simp_all
  have "map_of (files ?st1) (Shot (fail_name tid (date_now env (world st)))) = Some (page_screenshot env (world st))"
    by (simp add: map_of_put)
  moreover have "\<not> startsWith (fail_name tid (date_now env (world st))) ''diff-''"
    by (simp add: fail_name_def startsWith_def)
  ultimately have fl: "map_of (files st2) ?p = Some (page_screenshot env (world st))"
    using enrich_files [of env ps ?p ?st1 st2] en by simp
  show ?thesis
    using en fr fl by (simp add: record_failure_def Let_def addResult_def fail_name_def)
qed

lemma record_pass_results:
  "\<exists>r. results (record_pass env config tid tname t0 st) = results st @ [r] \<and>
       r_status r = PASS \<and> r_error r = None \<and> r_id r = tid \<and> r_name r = tname \<and>
       sessions (record_pass env config tid tname t0 st) = sessions st"
  by (simp add: record_pass_def addResult_def)

subsection \<open>The retry loop\<close>

lemma retry_pass:
  assumes "a \<le> R" and "attempt env config ps st = Ok s'"
  shows "retry_loop env config ps tid tname R a st =
           close_session env (record_pass env config tid tname (startTime_of env config st) s')"
  using assms
  by (subst retry_loop.simps) (simp add: attempt_def startTime_of_def Let_def)

lemma retry_again:
  assumes "a < R" and "attempt env config ps st = Threw e s'"
  shows "retry_loop env config ps tid tname R a st =
           retry_loop env config ps tid tname R (a + 1) (close_session env s')"
  using assms
  by (subst retry_loop.simps) (simp add: attempt_def Let_def)

lemma retry_done: "R < a \<Longrightarrow> retry_loop env config ps tid tname R a st = st"
  by (subst retry_loop.simps) simp

lemma retry_last:
  assumes "a = R" and "attempt env config ps st = Threw e s'"
  shows "retry_loop env config ps tid tname R a st =
           close_session env
             (record_failure env config ps tid tname (startTime_of env config st) e s')"
  using assms
  by (subst retry_loop.simps) (simp add: attempt_def startTime_of_def Let_def retry_done)

lemma retry_all_fail:
  "a + int k = R \<Longrightarrow> before_attempt env config ps k st = Some s \<Longrightarrow>
   attempt env config ps s = Threw e s' \<Longrightarrow>
   retry_loop env config ps tid tname R a st =
     close_session env (record_failure env config ps tid tname (startTime_of env config s) e s')"
proof (induction k arbitrary: a st)
  case 0
  then show ?case by (simp add: retry_last)
next
  case (Suc k)
  from Suc.prems(2) obtain e1 s1 where
    f: "attempt env config ps st = Threw e1 s1" and
    b: "before_attempt env config ps k (close_session env s1) = Some s"
    by (cases "attempt env config ps st") auto
  from Suc.prems(1) have lt: "a < R" and nx: "(a + 1) + int k = R" by auto
  from retry_again [OF lt f] Suc.IH [OF nx b Suc.prems(3)] show ?case by simp
qed

lemma retry_first_success:
  "a + int k \<le> R \<Longrightarrow> before_attempt env config ps k st = Some s \<Longrightarrow>
   attempt env config ps s = Ok s' \<Longrightarrow>
   retry_loop env config ps tid tname R a st =
     close_session env (record_pass env config tid tname (startTime_of env config s) s')"
proof (induction k arbitrary: a st)
  case 0
  then show ?case by (simp add: retry_pass)
next
  case (Suc k)
  from Suc.prems(2) obtain e1 s1 where
    f: "attempt env config ps st = Threw e1 s1" and
    b: "before_attempt env config ps k (close_session env s1) = Some s"
    by (cases "attempt env config ps st") auto
  from Suc.prems(1) have lt: "a < R" and nx: "(a + 1) + int k \<le> R" by auto
  from retry_again [OF lt f] Suc.IH [OF nx b Suc.prems(3)] show ?case by simp
qed

lemma pair_of_events_Suc:
  "pair_of_events env config (Suc k) = pair_of_events env config k @ [Opened (contextOptions env config), Closed]"
  unfolding pair_of_events_def by (induction k) simp_all

lemma pair_of_events_add:
  "pair_of_events env config a @ pair_of_events env config b = pair_of_events env config (a + b)"
  by (simp add: pair_of_events_def replicate_add)

lemma before_attempt_frame:
  "before_attempt env config ps k st = Some s \<Longrightarrow>
   results s = results st \<and> sessions s = sessions st @ pair_of_events env config k"
proof (induction k arbitrary: st)
  case 0
  then show ?case by (simp add: pair_of_events_def)
next
  case (Suc k)
  from Suc.prems obtain e1 s1 where
    f: "attempt env config ps st = Threw e1 s1" and
    b: "before_attempt env config ps k (close_session env s1) = Some s"
    by (cases "attempt env config ps st") auto
  from attempt_frame [of env config ps st] f
  have "results s1 = results st" "sessions s1 = sessions st @ [Opened (contextOptions env config)]"
    by simp_all
  with Suc.IH [OF b] show ?case by (simp add: close_session_def pair_of_events_def)
qed

lemma attempts_cases:
  "\<exists>k s. before_attempt env config ps k st = Some s \<and>
     ((\<exists>s'. attempt env config ps s = Ok s') \<or> (k = n \<and> (\<exists>e s'. attempt env config ps s = Threw e s'))) \<and> k \<le> n"
proof (induction n arbitrary: st)
  case 0
  show ?case by (cases "attempt env config ps st") (auto intro!: exI [of _ 0])
next
  case (Suc n)
  show ?case
  proof (cases "attempt env config ps st")
    case (Ok s')
    then show ?thesis by (auto intro!: exI [of _ 0])
  next
    case (Threw e s1)
    from Suc.IH [of "close_session env s1"] obtain k s where
      "before_attempt env config ps k (close_session env s1) = Some s"
      "(\<exists>s'. attempt env config ps s = Ok s') \<or> (k = n \<and> (\<exists>e s'. attempt env config ps s = Threw e s'))"
      "k \<le> n" by blast
    with Threw show ?thesis by (intro exI [of _ "Suc k"] exI [of _ s]) auto
  qed
qed

lemma retry_fails:
  assumes R: "0 \<le> R"
    and b: "before_attempt env config ps (nat R) st = Some s"
    and a: "attempt env config ps s = Threw e s'"
  shows "(\<exists>r. results (retry_loop env config ps tid tname R 0 st) = results st @ [r] \<and>
              r_id r = tid \<and> r_status r = FAIL \<and> r_error r = Some e \<and>
              r_screenshot r = Some (Shot (fail_name tid (date_now env (world s')))) \<and>
              map_of (files (retry_loop env config ps tid tname R 0 st))
                  (Shot (fail_name tid (date_now env (world s')))) =
                Some (page_screenshot env (world s'))) \<and>
         sessions (retry_loop env config ps tid tname R 0 st) =
           sessions st @ pair_of_events env config (nat R + 1)"
proof -
  let ?opts = "contextOptions env config"
  from R have "0 + int (nat R) = R" by simp
  from retry_all_fail [OF this b a]
  have eq: "retry_loop env config ps tid tname R 0 st = close_session env
              (record_failure env config ps tid tname (startTime_of env config s) e s')" .
  from before_attempt_frame [OF b]
  have s: "results s = results st" "sessions s = sessions st @ pair_of_events env config (nat R)"
    by simp_all
  from attempt_frame [of env config ps s] a
  have s': "results s' = results s" "sessions s' = sessions s @ [Opened ?opts]" by simp_all
  from record_failure_results [of env config ps tid tname "startTime_of env config s" e s']
  show ?thesis
    unfolding eq using s s' by (auto simp: close_session_def pair_of_events_Suc)
qed

lemma retry_passes:
  assumes k: "int k \<le> R"
    and b: "before_attempt env config ps k st = Some s"
    and a: "attempt env config ps s = Ok s'"
  shows "(\<exists>r. results (retry_loop env config ps tid tname R 0 st) = results st @ [r] \<and>
              r_id r = tid \<and> r_status r = PASS \<and> r_error r = None) \<and>
         sessions (retry_loop env config ps tid tname R 0 st) =
           sessions st @ pair_of_events env config (k + 1)"
proof -
  let ?opts = "contextOptions env config"
  from k have "0 + int k \<le> R" by simp
  from retry_first_success [OF this b a]
  have eq: "retry_loop env config ps tid tname R 0 st = close_session env
              (record_pass env config tid tname (startTime_of env config s) s')" .
  from before_attempt_frame [OF b]
  have s: "results s = results st" "sessions s = sessions st @ pair_of_events env config k"
    by simp_all
  from attempt_frame [of env config ps s] a
  have s': "results s' = results s" "sessions s' = sessions s @ [Opened ?opts]" by simp_all
  from record_pass_results [of env config tid tname "startTime_of env config s" s']
  show ?thesis
    unfolding eq using s s' by (auto simp: close_session_def pair_of_events_Suc)
qed

lemma retry_one_result:
  assumes R: "0 \<le> R"
  shows "\<exists>r n. results (retry_loop env config ps tid tname R 0 st) = results st @ [r] \<and>
           r_id r = tid \<and>
           sessions (retry_loop env config ps tid tname R 0 st) =
             sessions st @ pair_of_events env config n"
proof -
  from attempts_cases [of env config ps st "nat R"] obtain k s where
    b: "before_attempt env config ps k st = Some s" and
    c: "(\<exists>s'. attempt env config ps s = Ok s') \<or>
        (k = nat R \<and> (\<exists>e s'. attempt env config ps s = Threw e s'))" and
    k: "k \<le> nat R" by blast
  from c show ?thesis
  proof
    assume "\<exists>s'. attempt env config ps s = Ok s'"
    then obtain s' where a: "attempt env config ps s = Ok s'" ..
    from k R have "int k \<le> R" by simp
    from retry_passes [OF this b a, of tid tname] show ?thesis by blast
  next
    assume "k = nat R \<and> (\<exists>e s'. attempt env config ps s = Threw e s')"
    then obtain e s' where kr: "k = nat R" and a: "attempt env config ps s = Threw e s'" by blast
    from b kr have "before_attempt env config ps (nat R) st = Some s" by simp
    from retry_fails [OF R this a, of tid tname] show ?thesis by blast
  qed
qed

lemma always_failing:
  assumes "\<And>s. \<exists>s'. attempt env config ps s = Threw e s'"
  shows "\<exists>s. before_attempt env config ps k st = Some s"
proof (induction k arbitrary: st)
  case 0
  show ?case by simp
next
  case (Suc k)
  from assms [of st] obtain s' where "attempt env config ps st = Threw e s'" ..
  with Suc [of "close_session env s'"] show ?case by simp
qed

lemmas demo_simps = demo_env_def demo_state_def demo_config_def demo_templates_def
  attempt_def templatesToRun_def contextOptions_def open_session_def close_session_def
  execute_def step_failed_def dispatch_def do_page_def resolveParam_def startsWith_def endsWith_def
  slice_2_m2_def Let_def

lemma demo_broken_first:
  "attempt demo_env (demo_config ''broken'') [''user'' \<mapsto> ''guest''] (demo_state []) =
     Threw ''Step failed: click - Timeout exceeded.''
       ((demo_state [])\<lparr>world := 3,
          trace := [Did (Goto (Some ''http://localhost:3000'')), Did (Click (Some ''#missing''))],
          sessions := [Opened \<lparr>emulate = None, viewport = None\<rparr>]\<rparr>)"
  by (simp add: demo_simps)

lemma demo_broken_before_second:
  "before_attempt demo_env (demo_config ''broken'') [''user'' \<mapsto> ''guest''] (nat 1) (demo_state []) =
     Some ((demo_state [])\<lparr>world := 4,
          trace := [Did (Goto (Some ''http://localhost:3000'')), Did (Click (Some ''#missing''))],
          sessions := [Opened \<lparr>emulate = None, viewport = None\<rparr>, Closed]\<rparr>)"
  by (simp add: demo_broken_first) (simp add: demo_state_def demo_env_def close_session_def)

lemma demo_broken_second:
  "attempt demo_env (demo_config ''broken'') [''user'' \<mapsto> ''guest'']
     ((demo_state [])\<lparr>world := 4,
          trace := [Did (Goto (Some ''http://localhost:3000'')), Did (Click (Some ''#missing''))],
          sessions := [Opened \<lparr>emulate = None, viewport = None\<rparr>, Closed]\<rparr>) =
     Threw ''Step failed: click - Timeout exceeded.''
       ((demo_state [])\<lparr>world := 7,
          trace := [Did (Goto (Some ''http://localhost:3000'')), Did (Click (Some ''#missing'')),
                    Did (Goto (Some ''http://localhost:3000'')), Did (Click (Some ''#missing''))],
          sessions := [Opened \<lparr>emulate = None, viewport = None\<rparr>, Closed,
                       Opened \<lparr>emulate = None, viewport = None\<rparr>]\<rparr>)"
  by (simp add: demo_simps)

lemma demo_login_first:
  "attempt demo_env (demo_config ''login'') [''user'' \<mapsto> ''guest''] (demo_state []) =
     Ok ((demo_state [])\<lparr>world := 4,
          trace := [Did (Goto (Some ''http://localhost:3000'')),
                    Did (Fill (Some ''#user'') (Some ''guest'')), Did (Click (Some ''#submit''))],
          sessions := [Opened \<lparr>emulate = None, viewport = None\<rparr>]\<rparr>)"
  by (simp add: demo_simps)

text \<open>
  Claim C2. A run unit executed with retry count \<open>R \<ge> 0\<close>. If every attempt fails (the
  \<open>R\<close> attempts before the last one, and the last one with message \<open>e\<close>), then
  \<open>R + 1\<close> attempts are made, each in its own context that is closed before the next one
  opens, each running all templates from the first step on (that is what \<open>attempt\<close> is),
  and exactly one result is added: a FAIL with the last attempt's message and the failure
  screenshot, which is on disk. If attempt number \<open>k \<le> R\<close> is the first to succeed,
  exactly one PASS is added and \<open>k + 1\<close> contexts were opened and closed, so no further
  attempt is made. In every case exactly one result is added.
\<close>

theorem C2_retry_policy:
  assumes R: "0 \<le> R"
  shows "(\<forall>s e s'. before_attempt env config ps (nat R) st = Some s \<and>
                    attempt env config ps s = Threw e s' \<longrightarrow>
           (\<exists>r. results (retry_loop env config ps tid tname R 0 st) = results st @ [r] \<and>
                r_status r = FAIL \<and> r_error r = Some e \<and>
                r_screenshot r = Some (Shot (fail_name tid (date_now env (world s')))) \<and>
                map_of (files (retry_loop env config ps tid tname R 0 st))
                    (Shot (fail_name tid (date_now env (world s')))) =
                  Some (page_screenshot env (world s'))) \<and>
           sessions (retry_loop env config ps tid tname R 0 st) =
             sessions st @ pair_of_events env config (nat R + 1)) \<and>
         (\<forall>k s s'. int k \<le> R \<and> before_attempt env config ps k st = Some s \<and>
                    attempt env config ps s = Ok s' \<longrightarrow>
           (\<exists>r. results (retry_loop env config ps tid tname R 0 st) = results st @ [r] \<and>
                r_status r = PASS \<and> r_error r = None) \<and>
           sessions (retry_loop env config ps tid tname R 0 st) =
             sessions st @ pair_of_events env config (k + 1)) \<and>
         (\<exists>r. results (retry_loop env config ps tid tname R 0 st) = results st @ [r])"
proof (intro conjI allI impI)
  fix s e s'
  assume h: "before_attempt env config ps (nat R) st = Some s \<and> attempt env config ps s = Threw e s'"
  from retry_fails [OF R, of env config ps st s e s' tid tname] h
  show "\<exists>r. results (retry_loop env config ps tid tname R 0 st) = results st @ [r] \<and>
                r_status r = FAIL \<and> r_error r = Some e \<and>
                r_screenshot r = Some (Shot (fail_name tid (date_now env (world s')))) \<and>
                map_of (files (retry_loop env config ps tid tname R 0 st))
                    (Shot (fail_name tid (date_now env (world s')))) =
                  Some (page_screenshot env (world s'))"
    and "sessions (retry_loop env config ps tid tname R 0 st) =
             sessions st @ pair_of_events env config (nat R + 1)"
    by blast+
next
  fix k s s'
  assume h: "int k \<le> R \<and> before_attempt env config ps k st = Some s \<and> attempt env config ps s = Ok s'"
  from retry_passes [of k R env config ps st s s' tid tname] h
  show "\<exists>r. results (retry_loop env config ps tid tname R 0 st) = results st @ [r] \<and>
                r_status r = PASS \<and> r_error r = None"
    and "sessions (retry_loop env config ps tid tname R 0 st) =
             sessions st @ pair_of_events env config (k + 1)"
    by blast+
next
  from retry_one_result [OF R, of env config ps tid tname st]
  show "\<exists>r. results (retry_loop env config ps tid tname R 0 st) = results st @ [r]" by blast
qed

theorem C2_retry_policy_witness:
  "(0::int) \<le> 1 \<and>
   (\<exists>s s'. before_attempt demo_env (demo_config ''broken'') [''user'' \<mapsto> ''guest''] (nat 1) (demo_state []) = Some s \<and>
      attempt demo_env (demo_config ''broken'') [''user'' \<mapsto> ''guest''] s =
        Threw ''Step failed: click - Timeout exceeded.'' s') \<and>
   (\<exists>r. results (retry_loop demo_env (demo_config ''broken'') [''user'' \<mapsto> ''guest''] ''t1'' ''Test one'' 1 0 (demo_state [])) = [r] \<and>
        r_status r = FAIL \<and> r_error r = Some ''Step failed: click - Timeout exceeded.'' \<and>
        r_screenshot r = Some (Shot (fail_name ''t1'' 7))) \<and>
   sessions (retry_loop demo_env (demo_config ''broken'') [''user'' \<mapsto> ''guest''] ''t1'' ''Test one'' 1 0 (demo_state [])) =
     [Opened \<lparr>emulate = None, viewport = None\<rparr>, Closed, Opened \<lparr>emulate = None, viewport = None\<rparr>, Closed] \<and>
   int 0 \<le> 1 \<and>
   (\<exists>s'. before_attempt demo_env (demo_config ''login'') [''user'' \<mapsto> ''guest''] 0 (demo_state []) = Some (demo_state []) \<and>
      attempt demo_env (demo_config ''login'') [''user'' \<mapsto> ''guest''] (demo_state []) = Ok s') \<and>
   (\<exists>r. results (retry_loop demo_env (demo_config ''login'') [''user'' \<mapsto> ''guest''] ''t1'' ''Test one'' 1 0 (demo_state [])) = [r] \<and>
        r_status r = PASS \<and> r_error r = None) \<and>
   sessions (retry_loop demo_env (demo_config ''login'') [''user'' \<mapsto> ''guest''] ''t1'' ''Test one'' 1 0 (demo_state [])) =
     [Opened \<lparr>emulate = None, viewport = None\<rparr>, Closed]"
proof -
  have R: "(0::int) \<le> 1" by simp
  note C = C2_retry_policy [OF R, of demo_env _ "[''user'' \<mapsto> ''guest'']" "demo_state []" "''t1''" "''Test one''"]
  have o: "contextOptions demo_env (demo_config t) = \<lparr>emulate = None, viewport = None\<rparr>" for t
    by (simp add: contextOptions_def demo_config_def)
  have e0: "results (demo_state []) = []" "sessions (demo_state []) = []" by (simp_all add: demo_state_def)
  have dn: "date_now demo_env w = w" for w by (simp add: demo_env_def)
  from C [of "demo_config ''broken''"] demo_broken_before_second demo_broken_second
  have f: "(\<exists>r. results (retry_loop demo_env (demo_config ''broken'') [''user'' \<mapsto> ''guest''] ''t1'' ''Test one'' 1 0 (demo_state [])) = [r] \<and>
        r_status r = FAIL \<and> r_error r = Some ''Step failed: click - Timeout exceeded.'' \<and>
        r_screenshot r = Some (Shot (fail_name ''t1'' 7)))"
     "sessions (retry_loop demo_env (demo_config ''broken'') [''user'' \<mapsto> ''guest''] ''t1'' ''Test one'' 1 0 (demo_state [])) =
     [Opened \<lparr>emulate = None, viewport = None\<rparr>, Closed, Opened \<lparr>emulate = None, viewport = None\<rparr>, Closed]"
    by (auto simp: e0 o dn pair_of_events_def)
  have b0: "before_attempt demo_env (demo_config ''login'') [''user'' \<mapsto> ''guest''] 0 (demo_state []) = Some (demo_state [])"
    by simp
  from C [of "demo_config ''login''"] b0 demo_login_first
  have p: "(\<exists>r. results (retry_loop demo_env (demo_config ''login'') [''user'' \<mapsto> ''guest''] ''t1'' ''Test one'' 1 0 (demo_state [])) = [r] \<and>
        r_status r = PASS \<and> r_error r = None)"
     "sessions (retry_loop demo_env (demo_config ''login'') [''user'' \<mapsto> ''guest''] ''t1'' ''Test one'' 1 0 (demo_state [])) =
     [Opened \<lparr>emulate = None, viewport = None\<rparr>, Closed]"
    by (auto simp: e0 o pair_of_events_def)
  from f p demo_broken_before_second demo_broken_second demo_login_first b0 show ?thesis
    by auto
qed

text \<open>
  Claim C10. When resolving the parameters of a step throws, \<^verbatim>\<open>execute\<close> throws that very
  message, which is the one about an undefined environment variable and does not begin with
  \<^verbatim>\<open>Step failed: \<close>, and the state is unchanged, so no browser action of the step ran. When
  the parameters resolve, whatever \<^verbatim>\<open>execute\<close> throws is the action's message behind
  \<^verbatim>\<open>Step failed: <action> - \<close>. Wherever the step stands, after any steps of its template
  and any templates of the unit that ran before it, the attempt throws the message as it
  is, in the state those earlier steps left. The retry loop does with a thrown attempt what
  it does for every message: with attempts left it closes the session and goes on with the
  next attempt, and on the last attempt it records one FAIL with the message as thrown.
\<close>

theorem C10_resolution_outside_try:
  "(resolveParams (process_env env) (params step) ps = Inl e \<longrightarrow>
      execute env step ps st = Threw e st \<and> (\<exists>name. e = undefined_variable name) \<and>
      \<not> startsWith e ''Step failed: '') \<and>
   (resolveParams (process_env env) (params step) ps = Inr rp \<and>
    execute env step ps st = Threw e' st' \<longrightarrow>
      (\<exists>m. dispatch env (action step) rp st = Threw m st' \<and> e' = step_failed (action step) m) \<and>
      startsWith e' ''Step failed: '') \<and>
   (resolveParams (process_env env) (params step) ps = Inl e \<and>
    templatesToRun config = tpre @ Some tmplId # trest \<and>
    run_templates env tpre ps (open_session env (contextOptions env config) s) = Ok s0 \<and>
    loadTemplate env tmplId = Some t \<and> steps t = pre @ step # rest \<and>
    run_steps env pre ps s0 = Ok s1 \<longrightarrow>
      attempt env config ps s = Threw e s1) \<and>
   (attempt env config ps s = Threw m s1 \<longrightarrow>
      (a < R \<longrightarrow>
         retry_loop env config ps testId testName R a s =
           retry_loop env config ps testId testName R (a + 1) (close_session env s1)) \<and>
      (a = R \<longrightarrow>
         retry_loop env config ps testId testName R a s =
           close_session env
             (record_failure env config ps testId testName (startTime_of env config s) m s1) \<and>
         (\<exists>r. results (retry_loop env config ps testId testName R a s) = results s @ [r] \<and>
              r_status r = FAIL \<and> r_error r = Some m)))"
proof (intro conjI impI)
  assume a: "resolveParams (process_env env) (params step) ps = Inl e"
  then show "execute env step ps st = Threw e st" by (rule execute_unresolved)
  from resolveParams_Inl [OF a] show n: "\<exists>name. e = undefined_variable name" by blast
  then show "\<not> startsWith e ''Step failed: ''" using not_prefixed by blast
next
  assume a: "resolveParams (process_env env) (params step) ps = Inr rp \<and>
             execute env step ps st = Threw e' st'"
  then have a1: "resolveParams (process_env env) (params step) ps = Inr rp"
    and a2: "execute env step ps st = Threw e' st'" by simp_all
  from execute_resolved [OF a1, of st] a2
  have "(case dispatch env (action step) rp st of
        Ok st' \<Rightarrow> Ok st'
      | Threw e st' \<Rightarrow> Threw (step_failed (action step) e) st') = Threw e' st'"
    by simp
  then show m: "\<exists>m. dispatch env (action step) rp st = Threw m st' \<and> e' = step_failed (action step) m"
    by (cases "dispatch env (action step) rp st") auto
  then show "startsWith e' ''Step failed: ''" using step_failed_prefix by blast
next
  assume a: "resolveParams (process_env env) (params step) ps = Inl e \<and>
    templatesToRun config = tpre @ Some tmplId # trest \<and>
    run_templates env tpre ps (open_session env (contextOptions env config) s) = Ok s0 \<and>
    loadTemplate env tmplId = Some t \<and> steps t = pre @ step # rest \<and>
    run_steps env pre ps s0 = Ok s1"
  have steps_append: "run_steps env (xs @ ys) ps x =
      (case run_steps env xs ps x of Ok y \<Rightarrow> run_steps env ys ps y | Threw m y \<Rightarrow> Threw m y)"
    for xs ys x
  proof (induction xs arbitrary: x)
    case Nil
    show ?case by simp
  next
    case (Cons z zs)
    show ?case using Cons.IH by (cases "execute env z ps x") simp_all
  qed
  have templates_append: "run_templates env (xs @ ys) ps x =
      (case run_templates env xs ps x of Ok y \<Rightarrow> run_templates env ys ps y | Threw m y \<Rightarrow> Threw m y)"
    for xs ys x
  proof (induction xs arbitrary: x)
    case Nil
    show ?case by simp
  next
    case (Cons z zs)
    show ?case
    proof (cases "case z of None \<Rightarrow> None | Some i \<Rightarrow> loadTemplate env i")
      case None
      then show ?thesis by simp
    next
      case (Some tmpl)
      then show ?thesis using Cons.IH by (cases "run_steps env (steps tmpl) ps x") simp_all
    qed
  qed
  from a have "execute env step ps s1 = Threw e s1" by (simp add: execute_def)
  with a have "run_steps env (steps t) ps s0 = Threw e s1" by (simp add: steps_append)
  with a have "run_templates env (tpre @ Some tmplId # trest) ps
               (open_session env (contextOptions env config) s) = Threw e s1"
    by (simp add: templates_append)
  with a show "attempt env config ps s = Threw e s1" by (simp add: attempt_def)
next
  assume f: "attempt env config ps s = Threw m s1" and "a < R"
  then show "retry_loop env config ps testId testName R a s =
           retry_loop env config ps testId testName R (a + 1) (close_session env s1)"
    by (simp add: retry_again)
next
  assume f: "attempt env config ps s = Threw m s1" and "a = R"
  then show eq: "retry_loop env config ps testId testName R a s =
           close_session env
             (record_failure env config ps testId testName (startTime_of env config s) m s1)"
    by (simp add: retry_last)
  from attempt_frame [of env config ps s] f have "results s1 = results s" by simp
  with record_failure_results [of env config ps testId testName "startTime_of env config s" m s1]
  show "\<exists>r. results (retry_loop env config ps testId testName R a s) = results s @ [r] \<and>
              r_status r = FAIL \<and> r_error r = Some m"
    unfolding eq by (auto simp: close_session_def)
qed

lemma demo_workflow_first:
  "run_templates demo_env [Some ''login''] [''user'' \<mapsto> ''guest'']
     (open_session demo_env (contextOptions demo_env (demo_workflow_config [''login'', ''admin'']))
        (demo_state [])) =
   Ok ((demo_state [])\<lparr>world := 4,
         trace := [Did (Goto (Some ''http://localhost:3000'')),
                   Did (Fill (Some ''#user'') (Some ''guest'')), Did (Click (Some ''#submit''))],
         sessions := [Opened \<lparr>emulate = None, viewport = None\<rparr>]\<rparr>)"
  by (simp add: demo_simps demo_workflow_config_def)

lemma demo_workflow_menu:
  "run_steps demo_env [\<lparr>action = ''click'', params = [''#menu'']\<rparr>] [''user'' \<mapsto> ''guest'']
     ((demo_state [])\<lparr>world := 4,
         trace := [Did (Goto (Some ''http://localhost:3000'')),
                   Did (Fill (Some ''#user'') (Some ''guest'')), Did (Click (Some ''#submit''))],
         sessions := [Opened \<lparr>emulate = None, viewport = None\<rparr>]\<rparr>) =
   Ok ((demo_state [])\<lparr>world := 5,
         trace := [Did (Goto (Some ''http://localhost:3000'')),
                   Did (Fill (Some ''#user'') (Some ''guest'')), Did (Click (Some ''#submit'')),
                   Did (Click (Some ''#menu''))],
         sessions := [Opened \<lparr>emulate = None, viewport = None\<rparr>]\<rparr>)"
  by (simp add: demo_simps)

theorem C10_resolution_outside_try_witness:
  "resolveParams (process_env demo_env) (params \<lparr>action = ''goto'', params = [''{{env.ADMIN_URL}}'']\<rparr>)
      [''user'' \<mapsto> ''guest''] = Inl (undefined_variable ''ADMIN_URL'') \<and>
   execute demo_env \<lparr>action = ''goto'', params = [''{{env.ADMIN_URL}}'']\<rparr> [''user'' \<mapsto> ''guest'']
      (demo_state []) = Threw (undefined_variable ''ADMIN_URL'') (demo_state []) \<and>
   \<not> startsWith (undefined_variable ''ADMIN_URL'') ''Step failed: '' \<and>
   resolveParams (process_env demo_env) (params \<lparr>action = ''click'', params = [''#missing'']\<rparr>)
      [''user'' \<mapsto> ''guest''] = Inr [''#missing''] \<and>
   execute demo_env \<lparr>action = ''click'', params = [''#missing'']\<rparr> [''user'' \<mapsto> ''guest''] (demo_state []) =
      Threw (step_failed ''click'' ''Timeout exceeded.'')
        ((demo_state [])\<lparr>world := 1, trace := [Did (Click (Some ''#missing''))]\<rparr>) \<and>
   startsWith (step_failed ''click'' ''Timeout exceeded.'') ''Step failed: '' \<and>
   templatesToRun (demo_workflow_config [''login'', ''admin'']) = [Some ''login''] @ Some ''admin'' # [] \<and>
   loadTemplate demo_env ''admin'' =
     Some \<lparr>t_id = ''admin'', steps =
       [\<lparr>action = ''click'', params = [''#menu'']\<rparr>] @
       \<lparr>action = ''goto'', params = [''{{env.ADMIN_URL}}'']\<rparr> #
       [\<lparr>action = ''click'', params = [''#logout'']\<rparr>]\<rparr> \<and>
   attempt demo_env (demo_workflow_config [''login'', ''admin'']) [''user'' \<mapsto> ''guest''] (demo_state []) =
     Threw (undefined_variable ''ADMIN_URL'')
       ((demo_state [])\<lparr>world := 5,
          trace := [Did (Goto (Some ''http://localhost:3000'')),
                    Did (Fill (Some ''#user'') (Some ''guest'')), Did (Click (Some ''#submit'')),
                    Did (Click (Some ''#menu''))],
          sessions := [Opened \<lparr>emulate = None, viewport = None\<rparr>]\<rparr>) \<and>
   retry_loop demo_env (demo_workflow_config [''login'', ''admin'']) [''user'' \<mapsto> ''guest'']
       ''t1'' ''Test one'' 1 0 (demo_state []) =
     retry_loop demo_env (demo_workflow_config [''login'', ''admin'']) [''user'' \<mapsto> ''guest'']
       ''t1'' ''Test one'' 1 (0 + 1)
       (close_session demo_env
          ((demo_state [])\<lparr>world := 5,
             trace := [Did (Goto (Some ''http://localhost:3000'')),
                       Did (Fill (Some ''#user'') (Some ''guest'')), Did (Click (Some ''#submit'')),
                       Did (Click (Some ''#menu''))],
             sessions := [Opened \<lparr>emulate = None, viewport = None\<rparr>]\<rparr>)) \<and>
   (\<exists>r. results (retry_loop demo_env (demo_workflow_config [''login'', ''admin'']) [''user'' \<mapsto> ''guest'']
                    ''t1'' ''Test one'' 0 0 (demo_state [])) = [r] \<and>
        r_status r = FAIL \<and> r_error r = Some (undefined_variable ''ADMIN_URL''))"
proof -
  let ?admin = "\<lparr>action = ''goto'', params = [''{{env.ADMIN_URL}}'']\<rparr>"
  let ?menu = "\<lparr>action = ''click'', params = [''#menu'']\<rparr>"
  let ?logout = "\<lparr>action = ''click'', params = [''#logout'']\<rparr>"
  let ?click = "\<lparr>action = ''click'', params = [''#missing'']\<rparr>"
  let ?ps = "[''user'' \<mapsto> ''guest'']"
  let ?cfg = "demo_workflow_config [''login'', ''admin'']"
  let ?t = "\<lparr>t_id = ''admin'', steps = [?menu] @ ?admin # [?logout]\<rparr>"
  let ?s0 = "(demo_state [])\<lparr>world := 4,
         trace := [Did (Goto (Some ''http://localhost:3000'')),
                   Did (Fill (Some ''#user'') (Some ''guest'')), Did (Click (Some ''#submit''))],
         sessions := [Opened \<lparr>emulate = None, viewport = None\<rparr>]\<rparr>"
  let ?s1 = "(demo_state [])\<lparr>world := 5,
         trace := [Did (Goto (Some ''http://localhost:3000'')),
                   Did (Fill (Some ''#user'') (Some ''guest'')), Did (Click (Some ''#submit'')),
                   Did (Click (Some ''#menu''))],
         sessions := [Opened \<lparr>emulate = None, viewport = None\<rparr>]\<rparr>"
  have r1: "resolveParams (process_env demo_env) (params ?admin) ?ps = Inl (undefined_variable ''ADMIN_URL'')"
    by (simp add: demo_env_def resolveParam_def startsWith_def endsWith_def slice_2_m2_def
          undefined_variable_def)
  have r2: "resolveParams (process_env demo_env) (params ?click) ?ps = Inr [''#missing'']"
    by (simp add: demo_env_def resolveParam_def startsWith_def endsWith_def slice_2_m2_def)
  have x2: "execute demo_env ?click ?ps (demo_state []) =
      Threw (step_failed ''click'' ''Timeout exceeded.'')
        ((demo_state [])\<lparr>world := 1, trace := [Did (Click (Some ''#missing''))]\<rparr>)"
    by (simp add: demo_simps)
  have t: "templatesToRun ?cfg = [Some ''login''] @ Some ''admin'' # []"
    by (simp add: templatesToRun_def demo_workflow_config_def)
  have l: "loadTemplate demo_env ''admin'' = Some ?t"
    by (simp add: demo_env_def demo_templates_def)
  have st: "steps ?t = [?menu] @ ?admin # [?logout]" by simp
  have e0: "results (demo_state []) = []" by (simp add: demo_state_def)
  note C = C10_resolution_outside_try [of demo_env _ ?ps]
  from C [of ?admin "undefined_variable ''ADMIN_URL''" "demo_state []" _ _ _ ?cfg
            "[Some ''login'']" "''admin''" "[]" "demo_state []" ?s0 ?t "[?menu]" "[?logout]" ?s1]
    r1 t demo_workflow_first l st demo_workflow_menu
  have a: "execute demo_env ?admin ?ps (demo_state []) = Threw (undefined_variable ''ADMIN_URL'') (demo_state [])"
    "\<not> startsWith (undefined_variable ''ADMIN_URL'') ''Step failed: ''"
    "attempt demo_env ?cfg ?ps (demo_state []) = Threw (undefined_variable ''ADMIN_URL'') ?s1"
    by blast+
  have "attempt demo_env ?cfg ?ps (demo_state []) = Threw (undefined_variable ''ADMIN_URL'') ?s1"
    by (simp add: demo_simps demo_workflow_config_def undefined_variable_def)
  have one: "(0::int) < 1" by simp
  from C [of ?admin _ _ _ _ _ ?cfg _ _ _ "demo_state []" _ _ _ _ ?s1
            "undefined_variable ''ADMIN_URL''" 0 1 "''t1''" "''Test one''"] a(3) one
  have b: "retry_loop demo_env ?cfg ?ps ''t1'' ''Test one'' 1 0 (demo_state []) =
           retry_loop demo_env ?cfg ?ps ''t1'' ''Test one'' 1 (0 + 1) (close_session demo_env ?s1)"
    by blast
  from C [of ?admin _ _ _ _ _ ?cfg _ _ _ "demo_state []" _ _ _ _ ?s1
            "undefined_variable ''ADMIN_URL''" 0 0 "''t1''" "''Test one''"] a(3)
  have "\<exists>r. results (retry_loop demo_env ?cfg ?ps ''t1'' ''Test one'' 0 0 (demo_state [])) =
             results (demo_state []) @ [r] \<and>
        r_status r = FAIL \<and> r_error r = Some (undefined_variable ''ADMIN_URL'')"
    by blast
  then have c: "\<exists>r. results (retry_loop demo_env ?cfg ?ps ''t1'' ''Test one'' 0 0 (demo_state [])) = [r] \<and>
        r_status r = FAIL \<and> r_error r = Some (undefined_variable ''ADMIN_URL'')"
    by (simp add: e0)
  from C [of ?click _ "demo_state []" "[''#missing'']" "step_failed ''click'' ''Timeout exceeded.''"
            "(demo_state [])\<lparr>world := 1, trace := [Did (Click (Some ''#missing''))]\<rparr>"]
    r2 x2
  have d: "startsWith (step_failed ''click'' ''Timeout exceeded.'') ''Step failed: ''" by blast
  from a b c d r1 r2 x2 t l show ?thesis by simp
qed

subsection \<open>Fan-out over data rows\<close>

lemma run_rows_fold:
  "run_rows env config R n i rows st =
     foldl (\<lambda>s (j, row). retry_loop env config row (testId_of config n j) (testName_of config n j) R 0 s)
       st (enumerate i rows)"
  by (induction rows arbitrary: i st) simp_all

lemma run_rows_results:
  assumes R: "0 \<le> R"
  shows "\<exists>rs k. results (run_rows env config R n i rows st) = results st @ rs \<and>
           map r_id rs = map (testId_of config n) [i..<i + length rows] \<and>
           sessions (run_rows env config R n i rows st) = sessions st @ pair_of_events env config k"
proof (induction rows arbitrary: i st)
  case Nil
  have "sessions st = sessions st @ pair_of_events env config 0" by (simp add: pair_of_events_def)
  then show ?case by auto
next
  case (Cons row rows)
  let ?st1 = "retry_loop env config row (testId_of config n i) (testName_of config n i) R 0 st"
  from retry_one_result [OF R, of env config row "testId_of config n i" "testName_of config n i" st]
  obtain r k1 where r: "results ?st1 = results st @ [r]" "r_id r = testId_of config n i"
    "sessions ?st1 = sessions st @ pair_of_events env config k1" by blast
  from Cons.IH [of "Suc i" ?st1] obtain rs k2 where
    rs: "results (run_rows env config R n (Suc i) rows ?st1) = results ?st1 @ rs"
      "map r_id rs = map (testId_of config n) [Suc i..<Suc i + length rows]"
      "sessions (run_rows env config R n (Suc i) rows ?st1) = sessions ?st1 @ pair_of_events env config k2"
    by blast
  have "i < i + length (row # rows)" by simp
  from upt_conv_Cons [OF this]
  have "[i..<i + length (row # rows)] = i # [Suc i..<Suc i + length rows]" by simp
  with r rs have
    "results (run_rows env config R n i (row # rows) st) = results st @ (r # rs)"
    "map r_id (r # rs) = map (testId_of config n) [i..<i + length (row # rows)]"
    "sessions (run_rows env config R n i (row # rows) st) = sessions st @ pair_of_events env config (k1 + k2)"
    by (simp_all add: pair_of_events_add)
  then show ?case by blast
qed

text \<open>
  Claim C4, for a retry count \<open>R \<ge> 0\<close>. When the data file of a configuration loads with
  \<open>N\<close> rows, \<^verbatim>\<open>runSingleTest\<close> runs the retry loop once per row, in order, with the row
  spread over the configuration's parameters, and adds exactly \<open>N\<close> results, the one of row
  \<open>i\<close> under the test id of row \<open>i\<close>. In the merged mapping the row's value wins. When
  loading throws, exactly one result is added, a FAIL with the loader's message, no session
  is opened and no browser call is made, and the sequential loop goes on with the next
  configuration.
\<close>

theorem C4_fan_out:
  assumes R: "0 \<le> R"
  shows "(\<not> falsy (c_data config) \<and> loadData env (js_string (c_data config)) = Inr rows \<longrightarrow>
            runSingleTest env config R st =
              foldl (\<lambda>s (i, rowParams).
                       retry_loop env config rowParams (testId_of config (length rows) i)
                         (testName_of config (length rows) i) R 0 s)
                st (enumerate 0 (map (\<lambda>row. c_parameters config ++ row) rows)) \<and>
            (\<exists>rs. results (runSingleTest env config R st) = results st @ rs \<and>
                  length rs = length rows \<and>
                  map r_id rs = map (testId_of config (length rows)) [0..<length rows])) \<and>
         (\<forall>row key. (c_parameters config ++ row) key =
                       (case row key of Some v \<Rightarrow> Some v | None \<Rightarrow> c_parameters config key)) \<and>
         (\<not> falsy (c_data config) \<and> loadData env (js_string (c_data config)) = Inl e \<longrightarrow>
            (\<exists>r. runSingleTest env config R st = addResult r st \<and> r_status r = FAIL \<and>
                 r_id r = c_id config \<and> r_error r = Some (failed_to_load e)) \<and>
            length (results (runSingleTest env config R st)) = length (results st) + 1 \<and>
            sessions (runSingleTest env config R st) = sessions st \<and>
            trace (runSingleTest env config R st) = trace st \<and>
            run_sequential env R (config # rest) st =
              run_sequential env R rest (runSingleTest env config R st))"
proof (intro conjI impI allI)
  assume a: "\<not> falsy (c_data config) \<and> loadData env (js_string (c_data config)) = Inr rows"
  let ?rows = "map (\<lambda>row. c_parameters config ++ row) rows"
  from a have d: "dataRows_of env config = Inr ?rows" by (simp add: dataRows_of_def)
  then have eq: "runSingleTest env config R st = run_rows env config R (length rows) 0 ?rows st"
    by (simp add: runSingleTest_def)
  then show "runSingleTest env config R st =
              foldl (\<lambda>s (i, rowParams).
                       retry_loop env config rowParams (testId_of config (length rows) i)
                         (testName_of config (length rows) i) R 0 s)
                st (enumerate 0 ?rows)"
    by (simp add: run_rows_fold)
  from run_rows_results [OF R, of env config "length rows" 0 ?rows st]
  obtain rs where rs: "results (run_rows env config R (length rows) 0 ?rows st) = results st @ rs"
    "map r_id rs = map (testId_of config (length rows)) [0..<length rows]" by auto
  from rs(2) have "length rs = length rows" by (metis length_map length_upt minus_nat.diff_0)
  with rs eq show "\<exists>rs. results (runSingleTest env config R st) = results st @ rs \<and>
                  length rs = length rows \<and>
                  map r_id rs = map (testId_of config (length rows)) [0..<length rows]"
    by auto
next
  fix row key
  show "(c_parameters config ++ row) key =
          (case row key of Some v \<Rightarrow> Some v | None \<Rightarrow> c_parameters config key)"
    by (simp add: map_add_def split: option.splits)
next
  assume a: "\<not> falsy (c_data config) \<and> loadData env (js_string (c_data config)) = Inl e"
  then have d: "dataRows_of env config = Inl e" by (simp add: dataRows_of_def)
  then obtain r where "runSingleTest env config R st = addResult r st" "r_status r = FAIL"
    "r_id r = c_id config" "r_error r = Some (failed_to_load e)"
    by (simp add: runSingleTest_def)
  then show "\<exists>r. runSingleTest env config R st = addResult r st \<and> r_status r = FAIL \<and>
                 r_id r = c_id config \<and> r_error r = Some (failed_to_load e)"
    by blast
  from d show "length (results (runSingleTest env config R st)) = length (results st) + 1"
    and "sessions (runSingleTest env config R st) = sessions st"
    and "trace (runSingleTest env config R st) = trace st"
    by (simp_all add: runSingleTest_def addResult_def)
  show "run_sequential env R (config # rest) st =
              run_sequential env R rest (runSingleTest env config R st)"
    by simp
qed

theorem C4_fan_out_witness:
  "(0::int) \<le> 0 \<and>
   \<not> falsy (c_data (demo_data_config ''users.json'')) \<and>
   loadData demo_env (js_string (c_data (demo_data_config ''users.json''))) =
     Inr [[''user'' \<mapsto> ''alice''], [''user'' \<mapsto> ''bob'', ''role'' \<mapsto> ''admin'']] \<and>
   (\<exists>rs. results (runSingleTest demo_env (demo_data_config ''users.json'') 0 (demo_state [])) = rs \<and>
         length rs = 2 \<and> map r_id rs = [''t1_row_1'', ''t1_row_2'']) \<and>
   \<not> falsy (c_data (demo_data_config ''absent.json'')) \<and>
   loadData demo_env (js_string (c_data (demo_data_config ''absent.json''))) =
     Inl ''Data file not found: absent.json'' \<and>
   (\<exists>r. runSingleTest demo_env (demo_data_config ''absent.json'') 0 (demo_state []) =
          addResult r (demo_state []) \<and>
        r_status r = FAIL \<and> r_error r = Some (failed_to_load ''Data file not found: absent.json'')) \<and>
   sessions (runSingleTest demo_env (demo_data_config ''absent.json'') 0 (demo_state [])) = []"
proof -
  let ?rows = "[[''user'' \<mapsto> ''alice''], [''user'' \<mapsto> ''bob'', ''role'' \<mapsto> ''admin'']]"
  have R: "(0::int) \<le> 0" by simp
  have d1: "\<not> falsy (c_data (demo_data_config ''users.json''))"
    and d2: "\<not> falsy (c_data (demo_data_config ''absent.json''))"
    by (simp_all add: demo_data_config_def)
  have l1: "loadData demo_env (js_string (c_data (demo_data_config ''users.json''))) = Inr ?rows"
    by (simp add: demo_data_config_def demo_env_def)
  have l2: "loadData demo_env (js_string (c_data (demo_data_config ''absent.json''))) =
              Inl ''Data file not found: absent.json''"
    by (simp add: demo_data_config_def demo_env_def)
  have ids: "map (testId_of (demo_data_config ''users.json'') (length ?rows)) [0..<length ?rows] =
               [''t1_row_1'', ''t1_row_2'']"
  proof -
    have c: "digit_char (Suc 0) = CHR ''1''" "digit_char (Suc (Suc 0)) = CHR ''2''" by code_simp+
    show ?thesis
      by (simp add: testId_of_def demo_data_config_def demo_config_def show_nat.simps c upt_rec)
  qed
  have e0: "results (demo_state []) = []" "sessions (demo_state []) = []"
    by (simp_all add: demo_state_def)
  from C4_fan_out [OF R, of "demo_data_config ''users.json''" demo_env ?rows "demo_state []"] d1 l1
  have a: "\<exists>rs. results (runSingleTest demo_env (demo_data_config ''users.json'') 0 (demo_state [])) = rs \<and>
         length rs = 2 \<and> map r_id rs = [''t1_row_1'', ''t1_row_2'']"
    unfolding ids e0 by auto
  from C4_fan_out [OF R, of "demo_data_config ''absent.json''" demo_env _ "demo_state []"
      "''Data file not found: absent.json''"] d2 l2
  have b: "\<exists>r. runSingleTest demo_env (demo_data_config ''absent.json'') 0 (demo_state []) =
          addResult r (demo_state []) \<and>
        r_status r = FAIL \<and> r_error r = Some (failed_to_load ''Data file not found: absent.json'')"
    "sessions (runSingleTest demo_env (demo_data_config ''absent.json'') 0 (demo_state [])) = []"
    unfolding e0 by auto
  from R d1 d2 l1 l2 a b show ?thesis by blast
qed

text \<open>
  Claim C4 at a negative retry count. \<^verbatim>\<open>--retries=-1\<close> is read as the retry count \<open>-1\<close>;
  the loop \<^verbatim>\<open>for (attempt = 0; attempt <= maxRetries; attempt++)\<close> then makes no attempt,
  and the two rows of \<^verbatim>\<open>users.json\<close> leave no result.
\<close>

theorem C4_negative_retries_counterexample:
  "getRetries [''--retries=-1''] = - 1 \<and>
   loadData demo_env (js_string (c_data (demo_data_config ''users.json''))) =
     Inr [[''user'' \<mapsto> ''alice''], [''user'' \<mapsto> ''bob'', ''role'' \<mapsto> ''admin'']] \<and>
   results (runSingleTest demo_env (demo_data_config ''users.json'') (- 1) (demo_state [])) = []"
proof -
  have g: "getRetries [''--retries=-1''] = - 1" by code_simp
  have l: "loadData demo_env (js_string (c_data (demo_data_config ''users.json''))) =
             Inr [[''user'' \<mapsto> ''alice''], [''user'' \<mapsto> ''bob'', ''role'' \<mapsto> ''admin'']]"
    by (simp add: demo_data_config_def demo_env_def)
  have f: "\<not> falsy (c_data (demo_data_config ''users.json''))"
    by (simp add: demo_data_config_def)
  have "runSingleTest demo_env (demo_data_config ''users.json'') (- 1) (demo_state []) = demo_state []"
    using l f by (simp add: runSingleTest_def dataRows_of_def retry_done)
  with g l show ?thesis by (simp add: demo_state_def)
qed

subsection \<open>Batches and sessions\<close>

lemma js_slice_chunk:
  assumes "0 \<le> i" and "i < int (length xs)" and "0 < sz"
  shows "js_slice xs i (i + sz) = take (nat sz) (drop (nat i) xs)"
proof (cases "i + sz \<le> int (length xs)")
  case True
  with assms show ?thesis by (simp add: js_slice_def Let_def min_def)
next
  case False
  with assms have "js_slice xs i (i + sz) = take (length xs - nat i) (drop (nat i) xs)"
    by (simp add: js_slice_def Let_def min_def nat_diff_distrib')
  moreover from False assms have "length (drop (nat i) xs) \<le> nat sz" by simp
  ultimately show ?thesis by simp
qed

lemma chunk_loop_correct:
  assumes sz: "0 < sz"
  shows "0 \<le> i \<Longrightarrow>
    \<exists>rest. chunk_loop array sz i chunks = Some (chunks @ rest) \<and>
      concat rest = drop (nat i) array \<and>
      (\<forall>b \<in> set rest. b \<noteq> [] \<and> int (length b) \<le> sz) \<and>
      (\<forall>b \<in> set (butlast rest). int (length b) = sz)"
proof (induction "length array - nat i" arbitrary: i chunks rule: less_induct)
  case less
  show ?case
  proof (cases "i < int (length array)")
    case False
    then have "chunk_loop array sz i chunks = Some chunks"
      by (subst chunk_loop.simps) simp
    moreover from False less.prems have "drop (nat i) array = []" by simp
    ultimately show ?thesis by simp
  next
    case True
    let ?b = "take (nat sz) (drop (nat i) array)"
    from less.prems True sz have b: "js_slice array i (i + sz) = ?b" by (rule js_slice_chunk)
    from True have step: "chunk_loop array sz i chunks = chunk_loop array sz (i + sz) (chunks @ [?b])"
      by (subst chunk_loop.simps) (simp add: b)
    from True less.prems sz have m: "length array - nat (i + sz) < length array - nat i" by linarith
    from less.prems sz have nn: "0 \<le> i + sz" by simp
    from less.hyps [OF m nn, of "chunks @ [?b]"] obtain rest where
      r: "chunk_loop array sz (i + sz) (chunks @ [?b]) = Some ((chunks @ [?b]) @ rest)" and
      c: "concat rest = drop (nat (i + sz)) array" and
      s: "\<forall>b \<in> set rest. b \<noteq> [] \<and> int (length b) \<le> sz" and
      f: "\<forall>b \<in> set (butlast rest). int (length b) = sz"
      by blast
    from True less.prems sz have ne: "?b \<noteq> []" by simp
    have le: "int (length ?b) \<le> sz" using sz by simp
    from less.prems sz have "nat (i + sz) = nat i + nat sz" by (simp add: nat_add_distrib)
    then have cc: "concat (?b # rest) = drop (nat i) array"
      using c by (simp add: drop_drop add.commute) (metis append_take_drop_id drop_drop add.commute)
    have full: "int (length ?b) = sz" if "rest \<noteq> []"
    proof -
      have "i + sz < int (length array)"
      proof (rule ccontr)
        assume "\<not> i + sz < int (length array)"
        then have "chunk_loop array sz (i + sz) (chunks @ [?b]) = Some (chunks @ [?b])"
          by (subst chunk_loop.simps) simp
        with r that show False by simp
      qed
      with less.prems sz show ?thesis by simp
    qed
    have bl: "\<forall>b \<in> set (butlast (?b # rest)). int (length b) = sz"
      using f full by auto
    from step r cc ne le s bl show ?thesis
      by (intro exI [of _ "?b # rest"]) simp
  qed
qed

lemma chunk_correct:
  assumes "0 < sz"
  shows "\<exists>batches. chunk array sz = Some batches \<and> concat batches = array \<and>
           (\<forall>b \<in> set batches. b \<noteq> [] \<and> int (length b) \<le> sz) \<and>
           (\<forall>b \<in> set (butlast batches). int (length b) = sz)"
  using chunk_loop_correct [OF assms, of 0 array "[]"] by (simp add: chunk_def)

lemma retry_sessions:
  "\<exists>k. sessions (retry_loop env config ps tid tname R 0 st) = sessions st @ pair_of_events env config k"
proof (cases "0 \<le> R")
  case True
  from retry_one_result [OF this, of env config ps tid tname st] show ?thesis by blast
next
  case False
  then have "retry_loop env config ps tid tname R 0 st = st" by (simp add: retry_done)
  then have "sessions (retry_loop env config ps tid tname R 0 st) = sessions st @ pair_of_events env config 0"
    by (simp add: pair_of_events_def)
  then show ?thesis ..
qed

lemma run_rows_sessions:
  "\<exists>k. sessions (run_rows env config R n i rows st) = sessions st @ pair_of_events env config k"
proof (induction rows arbitrary: i st)
  case Nil
  have "sessions st = sessions st @ pair_of_events env config 0" by (simp add: pair_of_events_def)
  then show ?case by auto
next
  case (Cons row rows)
  let ?st1 = "retry_loop env config row (testId_of config n i) (testName_of config n i) R 0 st"
  from retry_sessions [of env config row "testId_of config n i" "testName_of config n i" R st]
  obtain k1 where 1: "sessions ?st1 = sessions st @ pair_of_events env config k1" ..
  from Cons [of "Suc i" ?st1] obtain k2 where
    2: "sessions (run_rows env config R n (Suc i) rows ?st1) = sessions ?st1 @ pair_of_events env config k2" ..
  from 1 2 have "sessions (run_rows env config R n i (row # rows) st) =
                   sessions st @ pair_of_events env config (k1 + k2)"
    by (simp add: pair_of_events_add)
  then show ?case ..
qed

lemma runSingleTest_sessions:
  "\<exists>k. sessions (runSingleTest env config R st) = sessions st @ pair_of_events env config k"
proof (cases "dataRows_of env config")
  case (Inl e)
  then have "sessions (runSingleTest env config R st) = sessions st @ pair_of_events env config 0"
    by (simp add: runSingleTest_def addResult_def pair_of_events_def)
  then show ?thesis ..
next
  case (Inr rows)
  with run_rows_sessions [of env config R "length rows" 0 rows st] show ?thesis
    by (simp add: runSingleTest_def)
qed

lemma unit_runs_pairs:
  assumes "evs \<in> unit_runs env R config"
  shows "\<exists>k. evs = pair_of_events env config k"
proof -
  from assms obtain st where "sessions (runSingleTest env config R st) = sessions st @ evs"
    by (auto simp: unit_runs_def)
  moreover from runSingleTest_sessions [of env config R st] obtain k where
    "sessions (runSingleTest env config R st) = sessions st @ pair_of_events env config k" ..
  ultimately have "evs = pair_of_events env config k" by simp
  then show ?thesis ..
qed

lemma open_sessions_append: "open_sessions (xs @ ys) = open_sessions xs + open_sessions ys"
  by (induction xs rule: open_sessions.induct) simp_all

lemma pair_of_events_front:
  "pair_of_events env config (Suc k) = Opened (contextOptions env config) # Closed # pair_of_events env config k"
  by (simp add: pair_of_events_def)

lemma within_limit_pairs: "within_limit 1 (pair_of_events env config k)"
proof (induction k)
  case 0
  show ?case by (simp add: within_limit_def pair_of_events_def)
next
  case (Suc k)
  have "0 \<le> open_sessions (take n (pair_of_events env config (Suc k))) \<and>
        open_sessions (take n (pair_of_events env config (Suc k))) \<le> 1" for n
  proof (cases n)
    case 0
    then show ?thesis by simp
  next
    case (Suc m)
    show ?thesis
    proof (cases m)
      case 0
      with Suc show ?thesis by (simp add: pair_of_events_front)
    next
      case (Suc l)
      with \<open>n = Suc m\<close> Suc.IH show ?thesis
        by (simp add: pair_of_events_front within_limit_def)
    qed
  qed
  moreover from Suc.IH have "open_sessions (pair_of_events env config (Suc k)) = 0"
    by (simp add: pair_of_events_front within_limit_def)
  ultimately show ?case by (simp add: within_limit_def)
qed

lemma open_sessions_shuffles:
  "zs \<in> shuffles xs ys \<Longrightarrow> open_sessions zs = open_sessions xs + open_sessions ys"
proof (induction xs ys arbitrary: zs rule: shuffles.induct)
  case (3 x xs y ys)
  then show ?case by (cases x; cases y) auto
qed simp_all

lemma take_shuffles:
  "zs \<in> shuffles xs ys \<Longrightarrow> \<exists>i j. take n zs \<in> shuffles (take i xs) (take j ys)"
proof (induction xs ys arbitrary: zs n rule: shuffles.induct)
  case (1 ys)
  then have "take n zs \<in> shuffles (take 0 []) (take n ys)" by simp
  then show ?case by blast
next
  case (2 xs)
  then have "take n zs \<in> shuffles (take n xs) (take 0 [])" by simp
  then show ?case by blast
next
  case (3 x xs y ys)
  show ?case
  proof (cases n)
    case 0
    have "take 0 zs \<in> shuffles (take 0 (x # xs)) (take 0 (y # ys))" by simp
    with 0 show ?thesis by blast
  next
    case (Suc m)
    from "3.prems" consider zs' where "zs = x # zs'" "zs' \<in> shuffles xs (y # ys)"
      | zs' where "zs = y # zs'" "zs' \<in> shuffles (x # xs) ys"
      by auto
    then show ?thesis
    proof cases
      case 1
      from "3.IH"(1) [OF 1(2), of m] obtain i j where
        "take m zs' \<in> shuffles (take i xs) (take j (y # ys))" by blast
      then have "take (Suc m) zs \<in> shuffles (take (Suc i) (x # xs)) (take j (y # ys))"
        using 1(1) by (simp add: Cons_in_shuffles_leftI)
      with Suc show ?thesis by blast
    next
      case 2
      from "3.IH"(2) [OF 2(2), of m] obtain i j where
        "take m zs' \<in> shuffles (take i (x # xs)) (take j ys)" by blast
      then have "take (Suc m) zs \<in> shuffles (take i (x # xs)) (take (Suc j) (y # ys))"
        using 2(1) by (simp add: Cons_in_shuffles_rightI)
      with Suc show ?thesis by blast
    qed
  qed
qed

lemma within_limit_shuffles:
  assumes "within_limit a xs" and "within_limit b ys" and "zs \<in> shuffles xs ys"
  shows "within_limit (a + b) zs"
proof -
  have "0 \<le> open_sessions (take n zs) \<and> open_sessions (take n zs) \<le> a + b" for n
  proof -
    from take_shuffles [OF assms(3), of n] obtain i j where
      "take n zs \<in> shuffles (take i xs) (take j ys)" by blast
    then have "open_sessions (take n zs) = open_sessions (take i xs) + open_sessions (take j ys)"
      by (rule open_sessions_shuffles)
    with assms(1,2) show ?thesis by (simp add: within_limit_def add_mono)
  qed
  moreover from assms have "open_sessions zs = 0"
    by (simp add: open_sessions_shuffles within_limit_def)
  ultimately show ?thesis by (simp add: within_limit_def)
qed

lemma within_limit_append:
  assumes "within_limit m xs" and "within_limit m ys"
  shows "within_limit m (xs @ ys)"
proof -
  have "0 \<le> open_sessions (take n (xs @ ys)) \<and> open_sessions (take n (xs @ ys)) \<le> m" for n
  proof (cases "n \<le> length xs")
    case True
    with assms(1) show ?thesis by (simp add: within_limit_def)
  next
    case False
    then have "take n (xs @ ys) = xs @ take (n - length xs) ys" by simp
    with assms show ?thesis by (simp add: within_limit_def open_sessions_append)
  qed
  moreover from assms have "open_sessions (xs @ ys) = 0"
    by (simp add: within_limit_def open_sessions_append)
  ultimately show ?thesis by (simp add: within_limit_def)
qed

lemma within_limit_mono: "within_limit a tr \<Longrightarrow> a \<le> b \<Longrightarrow> within_limit b tr"
  unfolding within_limit_def by (meson order_trans)

lemma all_at_once_limit:
  "tr \<in> all_at_once (map (unit_runs env R) batch) \<Longrightarrow> within_limit (int (length batch)) tr"
proof (induction batch arbitrary: tr)
  case Nil
  then show ?case by (simp add: within_limit_def)
next
  case (Cons c batch)
  from Cons.prems obtain a b where
    a: "a \<in> unit_runs env R c" and b: "b \<in> all_at_once (map (unit_runs env R) batch)"
    and t: "tr \<in> shuffles a b" by auto
  from unit_runs_pairs [OF a] within_limit_pairs have "within_limit 1 a" by metis
  from within_limit_shuffles [OF this Cons.IH [OF b] t] show ?case by simp
qed

lemma one_after_another_limit:
  assumes "\<And>A tr. A \<in> set As \<Longrightarrow> tr \<in> A \<Longrightarrow> within_limit m tr" and "0 \<le> m"
  shows "tr \<in> one_after_another As \<Longrightarrow> within_limit m tr"
  using assms(1)
proof (induction As arbitrary: tr)
  case Nil
  with assms(2) show ?case by (simp add: within_limit_def)
next
  case (Cons A As)
  from Cons.prems(1) obtain a b where "tr = a @ b" "a \<in> A" "b \<in> one_after_another As" by auto
  with Cons show ?case by (auto intro!: within_limit_append)
qed

lemma one_after_another_parts:
  "tr \<in> one_after_another As \<Longrightarrow> \<exists>parts. tr = concat parts \<and> list_all2 (\<in>) parts As"
proof (induction As arbitrary: tr)
  case Nil
  then show ?case by simp
next
  case (Cons A As)
  from Cons.prems obtain a b where t: "tr = a @ b" "a \<in> A" "b \<in> one_after_another As" by auto
  from Cons.IH [OF t(3)] obtain parts where "b = concat parts" "list_all2 (\<in>) parts As" by blast
  with t have "tr = concat (a # parts) \<and> list_all2 (\<in>) (a # parts) (A # As)" by simp
  then show ?case by blast
qed

lemma batches_traces:
  assumes "\<forall>b \<in> set batches. int (length b) \<le> K" and "0 \<le> K"
    and "tr \<in> plan_traces env R (Batches batches)"
  shows "within_limit K tr \<and>
         (\<exists>parts. tr = concat parts \<and>
            list_all2 (\<lambda>part batch. part \<in> all_at_once (map (unit_runs env R) batch) \<and>
                         within_limit (int (length batch)) part) parts batches)"
proof
  let ?As = "map (\<lambda>batch. all_at_once (map (unit_runs env R) batch)) batches"
  from assms(3) have t: "tr \<in> one_after_another ?As" by simp
  have "within_limit K x" if "A \<in> set ?As" "x \<in> A" for A x
  proof -
    from that obtain b where b: "b \<in> set batches" "x \<in> all_at_once (map (unit_runs env R) b)"
      by auto
    from all_at_once_limit [OF b(2)] assms(1) b(1) show ?thesis
      by (auto intro: within_limit_mono)
  qed
  from one_after_another_limit [OF this assms(2) t] show "within_limit K tr" by simp
  from one_after_another_parts [OF t] obtain parts where
    p: "tr = concat parts" "list_all2 (\<in>) parts ?As" by blast
  from p(2) have "list_all2 (\<lambda>part batch. part \<in> all_at_once (map (unit_runs env R) batch)) parts batches"
    by (simp add: list_all2_map2)
  then have "list_all2 (\<lambda>part batch. part \<in> all_at_once (map (unit_runs env R) batch) \<and>
                         within_limit (int (length batch)) part) parts batches"
    by (rule list_all2_mono) (simp add: all_at_once_limit)
  with p(1) show "\<exists>parts. tr = concat parts \<and>
            list_all2 (\<lambda>part batch. part \<in> all_at_once (map (unit_runs env R) batch) \<and>
                         within_limit (int (length batch)) part) parts batches"
    by blast
qed

lemma sequential_traces:
  assumes "tr \<in> plan_traces env R (Sequential tests)"
  shows "within_limit 1 tr"
proof -
  from assms have t: "tr \<in> one_after_another (map (unit_runs env R) tests)" by simp
  have "within_limit 1 x" if "A \<in> set (map (unit_runs env R) tests)" "x \<in> A" for A x
    using that unit_runs_pairs within_limit_pairs by fastforce
  from one_after_another_limit [OF this _ t] show ?thesis by simp
qed

lemma run_sequential_trace:
  "\<exists>tr \<in> plan_traces env R (Sequential tests).
     sessions (run_sequential env R tests st) = sessions st @ tr"
proof (induction tests arbitrary: st)
  case Nil
  show ?case by simp
next
  case (Cons c tests)
  let ?st1 = "runSingleTest env c R st"
  from runSingleTest_sessions [of env c R st] obtain k where
    k: "sessions ?st1 = sessions st @ pair_of_events env c k" ..
  then have u: "pair_of_events env c k \<in> unit_runs env R c" by (auto simp: unit_runs_def)
  from Cons [of ?st1] obtain tr where
    tr: "tr \<in> plan_traces env R (Sequential tests)"
      "sessions (run_sequential env R tests ?st1) = sessions ?st1 @ tr" by blast
  from u tr(1) have "pair_of_events env c k @ tr \<in> plan_traces env R (Sequential (c # tests))"
    by auto
  moreover from k tr(2) have "sessions (run_sequential env R (c # tests) st) =
      sessions st @ (pair_of_events env c k @ tr)" by simp
  ultimately show ?case by blast
qed

lemma demo_unit_run:
  "[Opened \<lparr>emulate = None, viewport = None\<rparr>, Closed] \<in> unit_runs demo_env 0 (demo_config ''login'')"
proof -
  let ?c = "demo_config ''login''"
  have p: "c_parameters ?c = [''user'' \<mapsto> ''guest'']" and d: "c_data ?c = None"
    by (simp_all add: demo_config_def)
  have o: "contextOptions demo_env ?c = \<lparr>emulate = None, viewport = None\<rparr>"
    by (simp add: contextOptions_def demo_config_def)
  have "runSingleTest demo_env ?c 0 (demo_state []) =
          retry_loop demo_env ?c [''user'' \<mapsto> ''guest''] (testId_of ?c 1 0) (testName_of ?c 1 0) 0 0
            (demo_state [])"
    by (simp add: runSingleTest_def dataRows_of_def p d)
  moreover have "before_attempt demo_env ?c [''user'' \<mapsto> ''guest''] 0 (demo_state []) = Some (demo_state [])"
    by simp
  from retry_passes [OF _ this demo_login_first, of 0 "testId_of ?c 1 0" "testName_of ?c 1 0"]
  have "sessions (retry_loop demo_env ?c [''user'' \<mapsto> ''guest''] (testId_of ?c 1 0) (testName_of ?c 1 0) 0 0
            (demo_state [])) = sessions (demo_state []) @ [Opened \<lparr>emulate = None, viewport = None\<rparr>, Closed]"
    by (simp add: pair_of_events_def o)
  ultimately have "sessions (runSingleTest demo_env ?c 0 (demo_state [])) =
      sessions (demo_state []) @ [Opened \<lparr>emulate = None, viewport = None\<rparr>, Closed]" by simp
  then show ?thesis unfolding unit_runs_def by blast
qed

text \<open>
  Claim C3. With concurrency \<open>K \<ge> 2\<close> the configurations that pass the tag filter are cut
  into consecutive batches, none empty, none longer than \<open>K\<close> and all but the last of
  length \<open>K\<close>. Every run of the batches is a sequence of segments, one per batch in order;
  a segment is an interleaving of the runs of the batch's units and ends with no session
  open, so the next batch starts after all units of this one have finished; at no point of
  the run are more than \<open>K\<close> sessions open. With concurrency 1 the configurations run one
  after the other with at most one session open, and this is what the sequential loop does.
  Without a \<^verbatim>\<open>--parallel\<close> argument the concurrency is 1; \<^verbatim>\<open>--parallel=auto\<close> makes it the
  number of cores, read when \<^verbatim>\<open>runTests\<close> starts.
\<close>

theorem C3_batches_and_limit:
  "(2 \<le> K \<and> getConcurrency cpus args = K \<and> testsToRun args configs \<noteq> [] \<longrightarrow>
     (\<exists>batches. runTests_plan cpus args configs = Some (Batches batches) \<and>
        concat batches = testsToRun args configs \<and>
        (\<forall>b \<in> set batches. b \<noteq> [] \<and> int (length b) \<le> K) \<and>
        (\<forall>b \<in> set (butlast batches). int (length b) = K) \<and>
        (\<forall>tr \<in> plan_traces env R (Batches batches).
           within_limit K tr \<and>
           (\<exists>parts. tr = concat parts \<and>
              list_all2 (\<lambda>part batch. part \<in> all_at_once (map (unit_runs env R) batch) \<and>
                           within_limit (int (length batch)) part) parts batches)))) \<and>
   (getConcurrency cpus args = 1 \<and> testsToRun args configs \<noteq> [] \<longrightarrow>
      runTests_plan cpus args configs = Some (Sequential (testsToRun args configs)) \<and>
      (\<forall>tr \<in> plan_traces env R (Sequential (testsToRun args configs)). within_limit 1 tr) \<and>
      (\<exists>tr \<in> plan_traces env R (Sequential (testsToRun args configs)).
         sessions (run_sequential env R (testsToRun args configs) st) = sessions st @ tr)) \<and>
   (find_arg ''--parallel'' args = None \<longrightarrow> getConcurrency cpus args = 1) \<and>
   (find_arg ''--parallel'' args = Some ''--parallel=auto'' \<longrightarrow> getConcurrency cpus args = int cpus)"
proof (intro conjI impI)
  assume a: "2 \<le> K \<and> getConcurrency cpus args = K \<and> testsToRun args configs \<noteq> []"
  then have K: "0 < K" by simp
  from chunk_correct [OF K, of "testsToRun args configs"] obtain batches where
    c: "chunk (testsToRun args configs) K = Some batches" and
    cc: "concat batches = testsToRun args configs" and
    s: "\<forall>b \<in> set batches. b \<noteq> [] \<and> int (length b) \<le> K" and
    f: "\<forall>b \<in> set (butlast batches). int (length b) = K" by blast
  from a c have p: "runTests_plan cpus args configs = Some (Batches batches)"
    by (simp add: runTests_plan_def Let_def)
  from s have s': "\<forall>b \<in> set batches. int (length b) \<le> K" by simp
  from K have K0: "0 \<le> K" by simp
  have "\<forall>tr \<in> plan_traces env R (Batches batches).
           within_limit K tr \<and>
           (\<exists>parts. tr = concat parts \<and>
              list_all2 (\<lambda>part batch. part \<in> all_at_once (map (unit_runs env R) batch) \<and>
                           within_limit (int (length batch)) part) parts batches)"
    using batches_traces [OF s' K0] by blast
  with p cc s f show "\<exists>batches. runTests_plan cpus args configs = Some (Batches batches) \<and>
        concat batches = testsToRun args configs \<and>
        (\<forall>b \<in> set batches. b \<noteq> [] \<and> int (length b) \<le> K) \<and>
        (\<forall>b \<in> set (butlast batches). int (length b) = K) \<and>
        (\<forall>tr \<in> plan_traces env R (Batches batches).
           within_limit K tr \<and>
           (\<exists>parts. tr = concat parts \<and>
              list_all2 (\<lambda>part batch. part \<in> all_at_once (map (unit_runs env R) batch) \<and>
                           within_limit (int (length batch)) part) parts batches))"
    by blast
next
  assume a: "getConcurrency cpus args = 1 \<and> testsToRun args configs \<noteq> []"
  then show "runTests_plan cpus args configs = Some (Sequential (testsToRun args configs))"
    by (simp add: runTests_plan_def Let_def)
  show "\<forall>tr \<in> plan_traces env R (Sequential (testsToRun args configs)). within_limit 1 tr"
    using sequential_traces by blast
  show "\<exists>tr \<in> plan_traces env R (Sequential (testsToRun args configs)).
         sessions (run_sequential env R (testsToRun args configs) st) = sessions st @ tr"
    by (rule run_sequential_trace)
next
  assume "find_arg ''--parallel'' args = None"
  then show "getConcurrency cpus args = 1" by (simp add: getConcurrency_def)
next
  assume "find_arg ''--parallel'' args = Some ''--parallel=auto''"
  then show "getConcurrency cpus args = int cpus" by (simp add: getConcurrency_def)
qed

theorem C3_batches_and_limit_witness:
  "(2::int) \<le> 2 \<and> getConcurrency 4 [''--parallel=2''] = 2 \<and>
   testsToRun [''--parallel=2''] demo_configs \<noteq> [] \<and>
   runTests_plan 4 [''--parallel=2''] demo_configs =
     Some (Batches [[demo_config ''login'', demo_config ''login''], [demo_config ''login'']]) \<and>
   [Opened \<lparr>emulate = None, viewport = None\<rparr>, Opened \<lparr>emulate = None, viewport = None\<rparr>, Closed, Closed,
    Opened \<lparr>emulate = None, viewport = None\<rparr>, Closed]
     \<in> plan_traces demo_env 0 (Batches [[demo_config ''login'', demo_config ''login''], [demo_config ''login'']]) \<and>
   within_limit 2
     [Opened \<lparr>emulate = None, viewport = None\<rparr>, Opened \<lparr>emulate = None, viewport = None\<rparr>, Closed, Closed,
      Opened \<lparr>emulate = None, viewport = None\<rparr>, Closed] \<and>
   getConcurrency 4 [''--retries=1''] = 1 \<and>
   runTests_plan 4 [''--retries=1''] demo_configs = Some (Sequential demo_configs) \<and>
   find_arg ''--parallel'' [''--retries=1''] = None \<and>
   find_arg ''--parallel'' [''--parallel=auto''] = Some ''--parallel=auto'' \<and>
   getConcurrency 4 [''--parallel=auto''] = 4"
proof -
  let ?o = "Opened \<lparr>emulate = None, viewport = None\<rparr>"
  let ?c = "demo_config ''login''"
  let ?tr = "[?o, ?o, Closed, Closed, ?o, Closed]"
  have g2: "getConcurrency 4 [''--parallel=2''] = 2"
    by (simp add: getConcurrency_def startsWith_def parseInt_def is_space_def digit_of_def Let_def)
  have t2: "testsToRun [''--parallel=2''] demo_configs = demo_configs"
    by (simp add: testsToRun_def)
  have ne: "testsToRun [''--parallel=2''] demo_configs \<noteq> []"
    unfolding t2 by (simp add: demo_configs_def)
  have f1: "find_arg ''--parallel'' [''--retries=1''] = None"
    and fa: "find_arg ''--parallel'' [''--parallel=auto''] = Some ''--parallel=auto''"
    by (simp_all add: startsWith_def)
  have t1: "testsToRun [''--retries=1''] demo_configs = demo_configs"
    by (simp add: testsToRun_def)
  have ne1: "testsToRun [''--retries=1''] demo_configs \<noteq> []"
    unfolding t1 by (simp add: demo_configs_def)
  have ch: "chunk demo_configs 2 = Some [[?c, ?c], [?c]]"
    by (simp add: chunk_def chunk_loop.simps js_slice_def demo_configs_def)
  have K: "(2::int) \<le> 2" by simp
  note C = C3_batches_and_limit [of _ 4 _ demo_configs demo_env 0 "demo_state []"]
  from C [of 2 "[''--parallel=2'']"] K g2 ne obtain batches where
    b: "runTests_plan 4 [''--parallel=2''] demo_configs = Some (Batches batches)"
    and lim: "\<forall>tr \<in> plan_traces demo_env 0 (Batches batches). within_limit 2 tr"
    by blast
  from b g2 ne ch have bs: "batches = [[?c, ?c], [?c]]"
    by (simp add: runTests_plan_def t2)
  have "[?o, ?o, Closed, Closed] \<in> shuffles [?o, Closed] [?o, Closed]" by simp
  with demo_unit_run have 1: "[?o, ?o, Closed, Closed] \<in> all_at_once (map (unit_runs demo_env 0) [?c, ?c])"
    by (auto intro!: bexI [of _ "[?o, Closed]"])
  from demo_unit_run have 2: "[?o, Closed] \<in> all_at_once (map (unit_runs demo_env 0) [?c])"
    by (auto intro!: bexI [of _ "[?o, Closed]"])
  from 1 2 have "[?o, ?o, Closed, Closed] @ [?o, Closed] @ [] \<in>
      plan_traces demo_env 0 (Batches [[?c, ?c], [?c]])"
    unfolding plan_traces.simps list.map one_after_another.simps by blast
  then have m: "?tr \<in> plan_traces demo_env 0 (Batches [[?c, ?c], [?c]])" by simp
  with lim bs have w: "within_limit 2 ?tr" by blast
  from C [of 1 "[''--retries=1'']"] f1 ne1
  have s: "getConcurrency 4 [''--retries=1''] = 1"
    "runTests_plan 4 [''--retries=1''] demo_configs = Some (Sequential demo_configs)"
    by (simp_all add: t1)
  from C [of 4 "[''--parallel=auto'']"] fa have a: "getConcurrency 4 [''--parallel=auto''] = 4"
    by simp
  from K g2 ne b bs m w s f1 fa a show ?thesis by simp
qed

subsection \<open>The approval workflow\<close>

lemma set_readdir_actual: "f \<in> set (readdir_actual fs) \<longleftrightarrow> Actual f \<in> fst ` set fs"
  by (induction fs rule: readdir_actual.induct) (auto simp: image_iff)

lemma distinct_readdir_actual: "distinct (map fst fs) \<Longrightarrow> distinct (readdir_actual fs)"
  by (induction fs rule: readdir_actual.induct) (auto simp: set_readdir_actual)

lemma listed_exists: "f \<in> set (readdir_actual fs) \<longleftrightarrow> map_of fs (Actual f) \<noteq> None"
  by (simp add: set_readdir_actual map_of_eq_None_iff)

lemma distinct_put: "distinct (map fst fs) \<Longrightarrow> distinct (map fst (put fs p b))"
  by (simp add: put_def distinct_update)

lemma distinct_remove: "distinct (map fst fs) \<Longrightarrow> distinct (map fst (remove fs p))"
  by (simp add: remove_def distinct_delete)

lemma review_effect:
  assumes "distinct pending" and "\<forall>f \<in> set pending. map_of fs (Actual f) \<noteq> None"
    and "distinct (map fst fs)"
  shows "\<exists>fs'. review prompt pending fs = Ok fs' \<and> distinct (map fst fs') \<and>
           (\<forall>f. map_of fs' (Actual f) =
                  (if f \<in> set pending \<and> prompt (basename_png f) \<noteq> skip then None
                   else map_of fs (Actual f))) \<and>
           (\<forall>f. map_of fs' (Baseline f) =
                  (if f \<in> set pending \<and> prompt (basename_png f) = approve then map_of fs (Actual f)
                   else map_of fs (Baseline f))) \<and>
           (\<forall>f. map_of fs' (Shot f) = map_of fs (Shot f))"
  using assms
proof (induction pending arbitrary: fs)
  case Nil
  then show ?case by simp
next
  case (Cons f0 rest)
  from Cons.prems have ex: "map_of fs (Actual f0) \<noteq> None" by simp
  then obtain b where b: "map_of fs (Actual f0) = Some b" by blast
  from Cons.prems have nin: "f0 \<notin> set rest" and dr: "distinct rest" by simp_all
  define fs1 where "fs1 = (case prompt (basename_png f0) of
       approve \<Rightarrow> put (remove fs (Actual f0)) (Baseline f0) b
     | reject \<Rightarrow> remove fs (Actual f0)
     | skip \<Rightarrow> fs)"
  have step: "review prompt (f0 # rest) fs = review prompt rest fs1"
    by (cases "prompt (basename_png f0)") (simp_all add: fs1_def move_def b)
  have d1: "distinct (map fst fs1)"
    using Cons.prems(3)
    by (cases "prompt (basename_png f0)") (simp_all add: fs1_def distinct_put distinct_remove)
  have a1: "map_of fs1 (Actual f) =
              (if f = f0 \<and> prompt (basename_png f0) \<noteq> skip then None else map_of fs (Actual f))" for f
    by (cases "prompt (basename_png f0)") (simp_all add: fs1_def map_of_put map_of_remove)
  have b1: "map_of fs1 (Baseline f) =
              (if f = f0 \<and> prompt (basename_png f0) = approve then map_of fs (Actual f0)
               else map_of fs (Baseline f))" for f
    by (cases "prompt (basename_png f0)") (simp_all add: fs1_def map_of_put map_of_remove b)
  have s1: "map_of fs1 (Shot f) = map_of fs (Shot f)" for f
    by (cases "prompt (basename_png f0)") (simp_all add: fs1_def map_of_put map_of_remove)
  have pre: "\<forall>f \<in> set rest. map_of fs1 (Actual f) \<noteq> None"
    using Cons.prems(2) nin by (auto simp: a1)
  from Cons.IH [OF dr pre d1] obtain fs' where
    r: "review prompt rest fs1 = Ok fs'" and d: "distinct (map fst fs')" and
    a: "\<forall>f. map_of fs' (Actual f) =
          (if f \<in> set rest \<and> prompt (basename_png f) \<noteq> skip then None else map_of fs1 (Actual f))" and
    bl: "\<forall>f. map_of fs' (Baseline f) =
          (if f \<in> set rest \<and> prompt (basename_png f) = approve then map_of fs1 (Actual f)
           else map_of fs1 (Baseline f))" and
    s: "\<forall>f. map_of fs' (Shot f) = map_of fs1 (Shot f)"
    by blast
  have A: "\<forall>f. map_of fs' (Actual f) =
                  (if f \<in> set (f0 # rest) \<and> prompt (basename_png f) \<noteq> skip then None
                   else map_of fs (Actual f))"
    using a a1 by auto
  have B: "\<forall>f. map_of fs' (Baseline f) =
                  (if f \<in> set (f0 # rest) \<and> prompt (basename_png f) = approve then map_of fs (Actual f)
                   else map_of fs (Baseline f))"
    using bl a1 b1 nin by auto
  have S: "\<forall>f. map_of fs' (Shot f) = map_of fs (Shot f)" using s s1 by simp
  from step r d A B S show ?case by simp
qed

text \<open>
  Claim C9. The files of a directory are listed once each. After the approval workflow,
  for every pending file: if the answer was approve, the baseline of that name holds what
  the actual image held and the file is no longer pending; if it was reject, the baseline
  is as before and the file is no longer pending; if it was skip, baseline and actual image
  are as before and the file is still pending. Files that were not pending, and all other
  screenshots, are untouched.
\<close>

theorem C9_approval_decisions:
  assumes "distinct (map fst fs)"
  shows "\<exists>fs'. approveBaselines prompt fs = Ok fs' \<and>
           (\<forall>f. pending_png fs f \<and> prompt (basename_png f) = approve \<longrightarrow>
                  map_of fs' (Baseline f) = map_of fs (Actual f) \<and>
                  map_of fs' (Actual f) = None \<and> \<not> pending_png fs' f) \<and>
           (\<forall>f. pending_png fs f \<and> prompt (basename_png f) = reject \<longrightarrow>
                  map_of fs' (Baseline f) = map_of fs (Baseline f) \<and>
                  map_of fs' (Actual f) = None \<and> \<not> pending_png fs' f) \<and>
           (\<forall>f. pending_png fs f \<and> prompt (basename_png f) = skip \<longrightarrow>
                  map_of fs' (Baseline f) = map_of fs (Baseline f) \<and>
                  map_of fs' (Actual f) = map_of fs (Actual f) \<and> pending_png fs' f) \<and>
           (\<forall>f. \<not> pending_png fs f \<longrightarrow>
                  map_of fs' (Baseline f) = map_of fs (Baseline f) \<and>
                  map_of fs' (Actual f) = map_of fs (Actual f)) \<and>
           (\<forall>f. map_of fs' (Shot f) = map_of fs (Shot f))"
proof -
  define pending where "pending = filter (\<lambda>f. endsWith f ''.png'') (readdir_actual fs)"
  have 1: "distinct pending" using assms by (simp add: pending_def distinct_readdir_actual)
  have 2: "\<forall>f \<in> set pending. map_of fs (Actual f) \<noteq> None" by (simp add: pending_def listed_exists)
  have m: "f \<in> set pending \<longleftrightarrow> pending_png fs f" for f
    by (auto simp: pending_def pending_png_def pathExists_def listed_exists)
  from review_effect [OF 1 2 assms, of prompt] obtain fs' where
    r: "review prompt pending fs = Ok fs'" and
    a: "\<forall>f. map_of fs' (Actual f) =
          (if f \<in> set pending \<and> prompt (basename_png f) \<noteq> skip then None else map_of fs (Actual f))" and
    b: "\<forall>f. map_of fs' (Baseline f) =
          (if f \<in> set pending \<and> prompt (basename_png f) = approve then map_of fs (Actual f)
           else map_of fs (Baseline f))" and
    s: "\<forall>f. map_of fs' (Shot f) = map_of fs (Shot f)"
    by blast
  have a': "map_of fs' (Actual f) =
          (if pending_png fs f \<and> prompt (basename_png f) \<noteq> skip then None else map_of fs (Actual f))" for f
    using a m by simp
  have b': "map_of fs' (Baseline f) =
          (if pending_png fs f \<and> prompt (basename_png f) = approve then map_of fs (Actual f)
           else map_of fs (Baseline f))" for f
    using b m by simp
  have p': "pending_png fs' f \<longleftrightarrow> pending_png fs f \<and> prompt (basename_png f) = skip" for f
    by (auto simp: pending_png_def pathExists_def a')
  have "approveBaselines prompt fs = Ok fs'"
    using r by (simp add: approveBaselines_def pending_def)
  then show ?thesis
    using s by (auto simp: a' b' p')
qed

theorem C9_approval_decisions_witness:
  "distinct (map fst demo_files) \<and>
   pending_png demo_files ''home.png'' \<and> demo_prompt (basename_png ''home.png'') = approve \<and>
   pending_png demo_files ''cart.png'' \<and> demo_prompt (basename_png ''cart.png'') = reject \<and>
   pending_png demo_files ''menu.png'' \<and> demo_prompt (basename_png ''menu.png'') = skip \<and>
   \<not> pending_png demo_files ''logo.png'' \<and>
   (\<exists>fs'. approveBaselines demo_prompt demo_files = Ok fs' \<and>
      map_of fs' (Baseline ''home.png'') = Some (Png black_1x2) \<and> \<not> pending_png fs' ''home.png'' \<and>
      map_of fs' (Baseline ''cart.png'') = Some (Png white_1x2) \<and> \<not> pending_png fs' ''cart.png'' \<and>
      map_of fs' (Baseline ''menu.png'') = Some (Png white_1x2) \<and>
      map_of fs' (Actual ''menu.png'') = Some (Png black_1x2) \<and> pending_png fs' ''menu.png'' \<and>
      map_of fs' (Baseline ''logo.png'') = None)"
proof -
  have d: "distinct (map fst demo_files)" by (simp add: demo_files_def)
  have p: "pending_png demo_files ''home.png''" "pending_png demo_files ''cart.png''"
    "pending_png demo_files ''menu.png''" "\<not> pending_png demo_files ''logo.png''"
    by (simp_all add: pending_png_def pathExists_def demo_files_def endsWith_def)
  have q: "demo_prompt (basename_png ''home.png'') = approve"
    "demo_prompt (basename_png ''cart.png'') = reject"
    "demo_prompt (basename_png ''menu.png'') = skip"
    by (simp_all add: demo_prompt_def basename_png_def endsWith_def)
  have m: "map_of demo_files (Actual ''home.png'') = Some (Png black_1x2)"
    "map_of demo_files (Baseline ''cart.png'') = Some (Png white_1x2)"
    "map_of demo_files (Baseline ''menu.png'') = Some (Png white_1x2)"
    "map_of demo_files (Actual ''menu.png'') = Some (Png black_1x2)"
    "map_of demo_files (Baseline ''logo.png'') = None"
    by (simp_all add: demo_files_def)
  from C9_approval_decisions [OF d, of demo_prompt] obtain fs' where
    "approveBaselines demo_prompt demo_files = Ok fs'"
    "\<forall>f. pending_png demo_files f \<and> demo_prompt (basename_png f) = approve \<longrightarrow>
        map_of fs' (Baseline f) = map_of demo_files (Actual f) \<and>
        map_of fs' (Actual f) = None \<and> \<not> pending_png fs' f"
    "\<forall>f. pending_png demo_files f \<and> demo_prompt (basename_png f) = reject \<longrightarrow>
        map_of fs' (Baseline f) = map_of demo_files (Baseline f) \<and>
        map_of fs' (Actual f) = None \<and> \<not> pending_png fs' f"
    "\<forall>f. pending_png demo_files f \<and> demo_prompt (basename_png f) = skip \<longrightarrow>
        map_of fs' (Baseline f) = map_of demo_files (Baseline f) \<and>
        map_of fs' (Actual f) = map_of demo_files (Actual f) \<and> pending_png fs' f"
    "\<forall>f. \<not> pending_png demo_files f \<longrightarrow>
        map_of fs' (Baseline f) = map_of demo_files (Baseline f) \<and>
        map_of fs' (Actual f) = map_of demo_files (Actual f)"
    by blast
  with p q m have "approveBaselines demo_prompt demo_files = Ok fs' \<and>
      map_of fs' (Baseline ''home.png'') = Some (Png black_1x2) \<and> \<not> pending_png fs' ''home.png'' \<and>
      map_of fs' (Baseline ''cart.png'') = Some (Png white_1x2) \<and> \<not> pending_png fs' ''cart.png'' \<and>
      map_of fs' (Baseline ''menu.png'') = Some (Png white_1x2) \<and>
      map_of fs' (Actual ''menu.png'') = Some (Png black_1x2) \<and> pending_png fs' ''menu.png'' \<and>
      map_of fs' (Baseline ''logo.png'') = None"
    by metis
  with d p q show ?thesis by blast
qed

end
